theory Spec2Isabelle
  imports Main "HOL-Library.Sublist"
begin

section \<open>Conversation state (package agent, Context)\<close>

text \<open>
  Go strings are byte strings and are modelled as \<open>string\<close> (a list of 8-bit
  characters). Go's \<open>int\<close> fields are modelled as \<open>int\<close>: no property below depends
  on 64-bit wrap-around.
\<close>

datatype Role = RoleSystem | RoleUser | RoleAssistant | RoleTool

record ToolCall =
  ID :: string
  Name :: string
  Arguments :: string

record Message =
  Role :: Role
  Content :: string
  ToolCalls :: "ToolCall list"
  ToolCallID :: string

record Usage =
  InputTokens :: int
  OutputTokens :: int

record Skill =
  SkillName :: string
  Description :: string
  SkillContent :: string
  FilePath :: string

text \<open>
  \<open>Metadata\<close> is a \<open>map[string]interface{}\<close>; its values are kept abstract in the
  type parameter \<open>'v\<close>. \<open>LoadedSkills\<close> is a Go map that \<open>GetSkillPrompt\<close> ranges
  over: it is an association list with one entry per name, and the order of the list
  stands for the order in which \<open>range\<close> visits the entries, which Go leaves open.
\<close>

record 'v Context =
  Messages :: "Message list"
  LoadedSkills :: "(string \<times> Skill) list"
  WorkspacePath :: string
  Metadata :: "string \<rightharpoonup> 'v"
  TotalInputTokens :: int
  TotalOutputTokens :: int
  IterationCount :: int

definition NewUserMessage :: "string \<Rightarrow> Message" where
  "NewUserMessage content =
     \<lparr>Role = RoleUser, Content = content, ToolCalls = [], ToolCallID = []\<rparr>"

definition NewAssistantMessage :: "string \<Rightarrow> Message" where
  "NewAssistantMessage content =
     \<lparr>Role = RoleAssistant, Content = content, ToolCalls = [], ToolCallID = []\<rparr>"

definition NewToolResultMessage :: "string \<Rightarrow> string \<Rightarrow> Message" where
  "NewToolResultMessage toolCallID content =
     \<lparr>Role = RoleTool, Content = content, ToolCalls = [], ToolCallID = toolCallID\<rparr>"

definition NewAssistantToolCallMessage :: "ToolCall list \<Rightarrow> Message" where
  "NewAssistantToolCallMessage toolCalls =
     \<lparr>Role = RoleAssistant, Content = [], ToolCalls = toolCalls, ToolCallID = []\<rparr>"

definition NewContext :: "string \<Rightarrow> 'v Context" where
  "NewContext workspacePath =
     \<lparr>Messages = [], LoadedSkills = [], WorkspacePath = workspacePath,
      Metadata = Map.empty, TotalInputTokens = 0, TotalOutputTokens = 0,
      IterationCount = 0\<rparr>"

definition AddMessage :: "Message \<Rightarrow> 'v Context \<Rightarrow> 'v Context" where
  "AddMessage msg c = c\<lparr>Messages := Messages c @ [msg]\<rparr>"

definition AddUserMessage :: "string \<Rightarrow> 'v Context \<Rightarrow> 'v Context" where
  "AddUserMessage content c = AddMessage (NewUserMessage content) c"

definition AddAssistantMessage :: "string \<Rightarrow> 'v Context \<Rightarrow> 'v Context" where
  "AddAssistantMessage content c = AddMessage (NewAssistantMessage content) c"

definition AddToolResult :: "string \<Rightarrow> string \<Rightarrow> 'v Context \<Rightarrow> 'v Context" where
  "AddToolResult toolCallID content c = AddMessage (NewToolResultMessage toolCallID content) c"

fun map_put :: "'k \<Rightarrow> 'a \<Rightarrow> ('k \<times> 'a) list \<Rightarrow> ('k \<times> 'a) list" where
  "map_put k v [] = [(k, v)]"
| "map_put k v ((k', v') # rest) =
     (if k = k' then (k, v) # rest else (k', v') # map_put k v rest)"

definition LoadSkill :: "Skill \<Rightarrow> 'v Context \<Rightarrow> 'v Context" where
  "LoadSkill skill c = c\<lparr>LoadedSkills := map_put (SkillName skill) skill (LoadedSkills c)\<rparr>"

definition ToPrompt :: "Skill \<Rightarrow> string" where
  "ToPrompt s = ''- **'' @ SkillName s @ ''** (`'' @ FilePath s @ ''`): '' @ Description s"

definition GetSkillPrompt :: "'v Context \<Rightarrow> string" where
  "GetSkillPrompt c =
     (if length (LoadedSkills c) = 0 then []
      else [CHR 0x0A, CHR 0x0A] @ ''## Available Skills'' @ [CHR 0x0A] @
           ''Use `read_file` to view full skill instructions when needed:'' @
           [CHR 0x0A, CHR 0x0A] @
           concat (map (\<lambda>(name, skill). ToPrompt skill @ [CHR 0x0A]) (LoadedSkills c)))"

definition UpdateUsage :: "Usage \<Rightarrow> 'v Context \<Rightarrow> 'v Context" where
  "UpdateUsage usage c =
     c\<lparr>TotalInputTokens := TotalInputTokens c + InputTokens usage,
       TotalOutputTokens := TotalOutputTokens c + OutputTokens usage\<rparr>"

definition Clear :: "'v Context \<Rightarrow> 'v Context" where
  "Clear c = c\<lparr>Messages := [], IterationCount := 0\<rparr>"

section \<open>Output capture (package sandbox, limitedWriter)\<close>

text \<open>
  The wrapped writer is always a \<open>bytes.Buffer\<close>; \<open>Buffer_Write\<close> is its \<open>Write\<close>:
  it appends the whole slice and returns its length with a nil error (\<open>None\<close>).
\<close>

definition Buffer_Write :: "string \<Rightarrow> string \<Rightarrow> string \<times> int \<times> string option" where
  "Buffer_Write b p = (b @ p, int (length p), None)"

record limitedWriter =
  buf :: string
  limit :: int
  written :: int

text \<open>
  \<open>Write\<close> returns the updated writer, the count and the error. In the source the
  parameter \<open>p\<close> is re-sliced to \<open>p[:remaining]\<close> before the inner write, and the final
  \<open>return len(p), err\<close> reads that re-sliced \<open>p\<close>; below \<open>p'\<close> is \<open>p\<close> after the
  re-slicing. \<open>written\<close> never exceeds \<open>limit\<close>, so the 64-bit arithmetic cannot wrap.
\<close>

definition Write :: "limitedWriter \<Rightarrow> string \<Rightarrow> limitedWriter \<times> int \<times> string option" where
  "Write lw p =
     (if written lw \<ge> limit lw then (lw, int (length p), None)
      else
        let remaining = limit lw - written lw;
            p' = (if int (length p) > remaining then take (nat remaining) p else p)
        in case Buffer_Write (buf lw) p' of
             (b, n, err) \<Rightarrow> (lw\<lparr>buf := b, written := written lw + n\<rparr>, int (length p'), err))"

text \<open>A sequence of \<open>Write\<close> calls on one writer; the counts reported are collected.\<close>

fun write_all :: "limitedWriter \<Rightarrow> string list \<Rightarrow> limitedWriter \<times> int list" where
  "write_all lw [] = (lw, [])"
| "write_all lw (p # ps) =
     (case Write lw p of (lw', n, _) \<Rightarrow>
        (case write_all lw' ps of (lw'', ns) \<Rightarrow> (lw'', n # ns)))"

definition new_writer :: "int \<Rightarrow> limitedWriter" where
  "new_writer lim = \<lparr>buf = [], limit = lim, written = 0\<rparr>"

text \<open>
  The caller of \<open>Write\<close> is \<open>io.Copy\<close>: for a command output that is not a file,
  \<open>os/exec\<close> starts a goroutine that copies from the pipe of the child to the writer.
  \<open>io_Copy\<close> is the loop of \<open>io.Copy\<close> for a writer without \<open>ReadFrom\<close>, over the
  chunks the reads from the pipe return, up to the end of the output: each chunk goes
  to \<open>Write\<close>; a count that is negative or above the chunk's length is an invalid
  write; an error of \<open>Write\<close> ends the copy; so does a count below the chunk's length
  with no error, with \<open>io.ErrShortWrite\<close>. The result is the writer and the error of
  the copy.
\<close>

definition ErrShortWrite :: string where
  "ErrShortWrite = ''short write''"

definition errInvalidWrite :: string where
  "errInvalidWrite = ''invalid write result''"

fun io_Copy :: "limitedWriter \<Rightarrow> string list \<Rightarrow> limitedWriter \<times> string option" where
  "io_Copy dst [] = (dst, None)"
| "io_Copy dst (chunk # rest) =
     (case Write dst chunk of
        (dst', nw, ew) \<Rightarrow>
          let nr = int (length chunk);
              ew' = (if (nw < 0 \<or> nr < nw) \<and> ew = None then Some errInvalidWrite else ew)
          in case ew' of
               Some e \<Rightarrow> (dst', Some e)
             | None \<Rightarrow> if nr \<noteq> nw then (dst', Some ErrShortWrite) else io_Copy dst' rest)"

section \<open>String functions of the Go library used by the sandbox\<close>

text \<open>
  The functions below follow Go's \<open>strings\<close>, \<open>regexp\<close> and \<open>encoding/base64\<close> on byte
  strings; text is UTF-8. \<open>strings.ToLower\<close> and \<open>strings.TrimSpace\<close> work byte by
  byte as long as they meet ASCII bytes only and hand over to the Unicode tables of the
  library otherwise. The byte-wise paths are modelled in full. The library's Unicode
  functions, and the one way in which \<open>regexp.Compile\<close> can refuse an expression built
  by the deny-list check, are not modelled: they are the fields of \<open>go_lib\<close>, which
  the functions that use them take as a parameter.
  \<^item> \<open>Map_ToLower\<close> is \<open>strings.Map(unicode.ToLower, s)\<close>: every character mapped to
    lower case, every byte that is not part of a valid UTF-8 sequence replaced by
    U+FFFD. Its result is valid UTF-8.
  \<^item> \<open>TrimFunc_IsSpace\<close> is \<open>strings.TrimFunc(s, unicode.IsSpace)\<close> and
    \<open>TrimRightFunc_IsSpace\<close> is \<open>strings.TrimRightFunc(s, unicode.IsSpace)\<close>: the
    Unicode white space (U+0085 and U+00A0 for instance, besides the ASCII one)
    removed at both ends, or at the right end.
  \<^item> \<open>Compile_error\<close> tells for which expressions \<open>regexp.Compile\<close> returns an
    error although they are well formed: text that is not valid UTF-8, or an expression
    beyond the size limits of the parser.
\<close>

record go_lib =
  Map_ToLower :: "string \<Rightarrow> string"
  TrimFunc_IsSpace :: "string \<Rightarrow> string"
  TrimRightFunc_IsSpace :: "string \<Rightarrow> string"
  Compile_error :: "string \<Rightarrow> bool"

text \<open>\<open>utf8.RuneSelf\<close>: the bytes below it are the ASCII characters.\<close>

definition RuneSelf :: nat where
  "RuneSelf = 0x80"

definition isASCII :: "string \<Rightarrow> bool" where
  "isASCII s = list_all (\<lambda>c. (of_char c :: nat) < RuneSelf) s"

definition to_lower_char :: "char \<Rightarrow> char" where
  "to_lower_char c =
     (let n = (of_char c :: nat) in if 65 \<le> n \<and> n \<le> 90 then char_of (n + 32) else c)"

text \<open>
  \<open>strings.ToLower\<close>: a string of ASCII bytes is lower-cased byte by byte (and is
  returned as it is when it has no upper-case letter); any other string goes to
  \<open>strings.Map(unicode.ToLower, s)\<close>.
\<close>

definition ToLower :: "go_lib \<Rightarrow> string \<Rightarrow> string" where
  "ToLower lib s = (if isASCII s then map to_lower_char s else Map_ToLower lib s)"

text \<open>The class \<open>\s\<close> of Go regular expressions: tab, newline, form feed, return, space.\<close>

definition re_space :: "char \<Rightarrow> bool" where
  "re_space c = ((of_char c :: nat) \<in> {9, 10, 12, 13, 32})"

text \<open>\<open>regexp.MustCompile(`\s+`).ReplaceAllString(s, " ")\<close>.\<close>

function collapse_ws :: "string \<Rightarrow> string" where
  "collapse_ws [] = []"
| "collapse_ws (c # cs) =
     (if re_space c then CHR '' '' # collapse_ws (dropWhile re_space cs)
      else c # collapse_ws cs)"
  by pat_completeness auto
termination
  by (relation "measure length") (auto simp: length_dropWhile_le less_Suc_eq_le)

text \<open>
  The table \<open>asciiSpace\<close> of package \<open>strings\<close>: tab, newline, vertical tab, form feed,
  return, space.
\<close>

definition asciiSpace :: "char \<Rightarrow> bool" where
  "asciiSpace c = ((of_char c :: nat) \<in> {9, 10, 11, 12, 13, 32})"

text \<open>
  One loop of \<open>strings.TrimSpace\<close>, over the bytes in the order the loop visits them:
  it skips ASCII white space and stops at the first other byte. The result is what is
  left from that byte on, with \<open>True\<close> when the byte is not ASCII.
\<close>

fun skip_space :: "string \<Rightarrow> bool \<times> string" where
  "skip_space [] = (False, [])"
| "skip_space (c # cs) =
     (if (of_char c :: nat) \<ge> RuneSelf then (True, c # cs)
      else if asciiSpace c then skip_space cs
      else (False, c # cs))"

text \<open>
  \<open>strings.TrimSpace\<close>. The first loop runs from the start; at a byte that is not ASCII
  it returns \<open>TrimFunc(s[start:], unicode.IsSpace)\<close>. The second loop runs from the
  end of what is left, towards the start; at a byte that is not ASCII it returns
  \<open>TrimRightFunc(s[start:stop], unicode.IsSpace)\<close>. Otherwise the result is
  \<open>s[start:stop]\<close>.
\<close>

definition TrimSpace :: "go_lib \<Rightarrow> string \<Rightarrow> string" where
  "TrimSpace lib s =
     (case skip_space s of
        (True, from_start) \<Rightarrow> TrimFunc_IsSpace lib from_start
      | (False, from_start) \<Rightarrow>
          (case skip_space (rev from_start) of
             (True, to_stop) \<Rightarrow> TrimRightFunc_IsSpace lib (rev to_stop)
           | (False, to_stop) \<Rightarrow> rev to_stop))"

definition HasPrefix :: "string \<Rightarrow> string \<Rightarrow> bool" where
  "HasPrefix s pre = prefix pre s"

fun Contains :: "string \<Rightarrow> string \<Rightarrow> bool" where
  "Contains [] sub = (sub = [])"
| "Contains (c # cs) sub = (prefix sub (c # cs) \<or> Contains cs sub)"

fun Join :: "string list \<Rightarrow> string \<Rightarrow> string" where
  "Join [] sep = []"
| "Join [a] sep = a"
| "Join (a # b # rest) sep = a @ sep @ Join (b # rest) sep"

text \<open>
  \<open>strings.ReplaceAll\<close>: non-overlapping occurrences, leftmost first. With an empty
  \<open>old\<close>, Go inserts \<open>new\<close> before every character and at the end.
\<close>

function ReplaceAll :: "string \<Rightarrow> string \<Rightarrow> string \<Rightarrow> string" where
  "ReplaceAll s old new =
     (if old = [] then new @ concat (map (\<lambda>c. c # new) s)
      else if s = [] then []
      else if prefix old s then new @ ReplaceAll (drop (length old) s) old new
      else hd s # ReplaceAll (tl s) old new)"
  by pat_completeness auto
termination
  by (relation "measure (\<lambda>(s, old, new). length s)") auto

declare ReplaceAll.simps [simp del]

definition backslash :: char where
  "backslash = CHR 0x5C"

definition newline :: char where
  "newline = CHR 0x0A"

text \<open>\<open>regexp.QuoteMeta\<close>: a backslash before each of \<open>\.+*?()|[]{}^$\<close>.\<close>

definition special :: "char \<Rightarrow> bool" where
  "special c = (c \<in> set (backslash # ''.+*?()|[]{}^$''))"

fun QuoteMeta :: "string \<Rightarrow> string" where
  "QuoteMeta [] = []"
| "QuoteMeta (c # cs) =
     (if special c then backslash # c # QuoteMeta cs else c # QuoteMeta cs)"

text \<open>
  The regular expressions that reach \<open>regexp.Compile\<close> here are built from escaped
  text and the token \<open>.*\<close>. \<open>parse_re\<close> models the parser on that fragment: a
  literal for an ordinary byte or an escaped special character, \<open>AnyRun\<close> for
  \<open>.*\<close>; anything else is \<open>None\<close>. Lemma \<open>parse_pattern\<close> below shows that no
  deny-list pattern ever leaves the fragment. A character of several bytes is a
  sequence of literals, one per byte: in UTF-8 text this matches where the character
  does.
\<close>

datatype re_token = Lit char | AnyRun

fun parse_re :: "string \<Rightarrow> re_token list option" where
  "parse_re [] = Some []"
| "parse_re [c] = (if special c then None else Some [Lit c])"
| "parse_re (c # d # cs) =
     (if c = backslash then
        (if special d then map_option (Cons (Lit d)) (parse_re cs) else None)
      else if c = CHR ''.'' \<and> d = CHR ''*'' then map_option (Cons AnyRun) (parse_re cs)
      else if special c then None
      else map_option (Cons (Lit c)) (parse_re (d # cs)))"

text \<open>
  \<open>regexp.Compile\<close>: \<open>None\<close> is its error, which sends \<open>checkBlacklist\<close> into its
  substring fallback.
\<close>

definition Compile :: "go_lib \<Rightarrow> string \<Rightarrow> re_token list option" where
  "Compile lib expr = (if Compile_error lib expr then None else parse_re expr)"

text \<open>
  Matching at the start of the text. Without the \<open>s\<close> flag the dot of a Go regular
  expression matches every character but the newline.
\<close>

fun match_here :: "re_token list \<Rightarrow> string \<Rightarrow> bool" where
  "match_here [] s = True"
| "match_here (Lit c # ts) [] = False"
| "match_here (Lit c # ts) (x # xs) = (c = x \<and> match_here ts xs)"
| "match_here (AnyRun # ts) [] = match_here ts []"
| "match_here (AnyRun # ts) (x # xs) =
     (match_here ts (x # xs) \<or> (x \<noteq> newline \<and> match_here (AnyRun # ts) xs))"

text \<open>\<open>Regexp.MatchString\<close>: the expression is not anchored, a match may start anywhere.\<close>

fun MatchString :: "re_token list \<Rightarrow> string \<Rightarrow> bool" where
  "MatchString ts [] = match_here ts []"
| "MatchString ts (x # xs) = (match_here ts (x # xs) \<or> MatchString ts xs)"

section \<open>The deny-list (package sandbox, checkBlacklist)\<close>

record Config =
  WorkingDir :: string
  Timeout :: int
  AllowedEnv :: "string list"
  CustomEnv :: "(string \<times> string) list"
  MaxOutputBytes :: int
  CommandBlacklist :: "string list"

datatype sandbox_error =
    ErrBlacklistedCommand string
  | ErrCreateTemp string
  | ErrWriteScript string
  | ErrInvalidWorkingDir string
  | ErrExecutionFailed string

text \<open>
  The loop over the patterns, on the already normalised input. The error carries the
  pattern as configured (\<open>matches pattern %q\<close>); \<open>None\<close> is the nil error.
\<close>

fun check_patterns :: "go_lib \<Rightarrow> string \<Rightarrow> string list \<Rightarrow> sandbox_error option" where
  "check_patterns lib normalizedInput [] = None"
| "check_patterns lib normalizedInput (pattern # rest) =
     (let normalizedPattern = ToLower lib pattern;
          escaped = QuoteMeta normalizedPattern;
          regexPattern = ReplaceAll escaped [backslash, CHR ''*''] ''.*''
      in case Compile lib regexPattern of
           None \<Rightarrow>
             (if Contains normalizedInput normalizedPattern
              then Some (ErrBlacklistedCommand pattern)
              else check_patterns lib normalizedInput rest)
         | Some re \<Rightarrow>
             (if MatchString re normalizedInput
              then Some (ErrBlacklistedCommand pattern)
              else check_patterns lib normalizedInput rest))"

definition checkBlacklist :: "go_lib \<Rightarrow> Config \<Rightarrow> string \<Rightarrow> sandbox_error option" where
  "checkBlacklist lib config input =
     (if length (CommandBlacklist config) = 0 then None
      else check_patterns lib (collapse_ws (ToLower lib input)) (CommandBlacklist config))"

section \<open>The Python wrapper (package sandbox, wrapPythonScript)\<close>

text \<open>\<open>base64.StdEncoding.EncodeToString\<close>: the standard alphabet, padded with \<open>=\<close>.\<close>

definition b64_alphabet :: string where
  "b64_alphabet = ''ABCDEFGHIJKLMNOPQRSTUVWXYZabcdefghijklmnopqrstuvwxyz0123456789+/''"

definition b64_char :: "nat \<Rightarrow> char" where
  "b64_char n = b64_alphabet ! (n mod 64)"

fun EncodeToString :: "string \<Rightarrow> string" where
  "EncodeToString [] = []"
| "EncodeToString [a] =
     (let x = (of_char a :: nat)
      in [b64_char (x div 4), b64_char ((x mod 4) * 16), CHR ''='', CHR ''=''])"
| "EncodeToString [a, b] =
     (let x = (of_char a :: nat); y = (of_char b :: nat)
      in [b64_char (x div 4), b64_char ((x mod 4) * 16 + y div 16),
          b64_char ((y mod 16) * 4), CHR ''=''])"
| "EncodeToString (a # b # c # rest) =
     (let x = (of_char a :: nat); y = (of_char b :: nat); z = (of_char c :: nat)
      in [b64_char (x div 4), b64_char ((x mod 4) * 16 + y div 16),
          b64_char ((y mod 16) * 4 + z div 64), b64_char (z mod 64)]
         @ EncodeToString rest)"

text \<open>The ten substrings whose presence leaves a script as it is.\<close>

definition markers :: "string list" where
  "markers = [''print('', ''print '', ''import '', ''def '', ''class '', ''if '',
              ''for '', ''while '', ''with '', ''try:'']"

definition has_marker :: "string \<Rightarrow> bool" where
  "has_marker trimmed = list_ex (Contains trimmed) markers"

text \<open>The two parts of the format string, before and after the \<open>%s\<close> verb.\<close>

definition wrapper_head :: string where
  "wrapper_head =
     ''import base64'' @ [newline] @ ''_code = base64.b64decode('' @ [CHR 0x22]"

definition wrapper_tail :: string where
  "wrapper_tail =
     [CHR 0x22] @ '').decode('' @ [CHR 0x22] @ ''utf-8'' @ [CHR 0x22] @ '')'' @ [newline] @
     ''try:'' @ [newline] @
     ''    _result = eval(compile(_code, '<input>', 'eval'))'' @ [newline] @
     ''    if _result is not None:'' @ [newline] @
     ''        print(repr(_result))'' @ [newline] @
     ''except SyntaxError:'' @ [newline] @
     ''    exec(compile(_code, '<input>', 'exec'))'' @ [newline]"

definition wrapPythonScript :: "go_lib \<Rightarrow> string \<Rightarrow> string" where
  "wrapPythonScript lib script =
     (let trimmed = TrimSpace lib script
      in if has_marker trimmed then script
         else wrapper_head @ EncodeToString script @ wrapper_tail)"

section \<open>Running a command (package sandbox, ProcessSandbox)\<close>

record ExecutionResult =
  Stdout :: string
  Stderr :: string
  ExitCode :: int
  Duration :: int
  TimedOut :: bool

text \<open>
  An \<open>exec.Cmd\<close>: \<open>exec.CommandContext(ctx, name, args...)\<close> sets \<open>Path\<close> from the
  name and \<open>Args\<close> to the name followed by the arguments; \<open>Deadline\<close> is the timeout
  of the context the command was created with, if one was applied.
\<close>

record Cmd =
  Path :: string
  Args :: "string list"
  Dir :: string
  Env :: "string list"
  Deadline :: "int option"

definition CommandContext :: "int option \<Rightarrow> string \<Rightarrow> string list \<Rightarrow> Cmd" where
  "CommandContext deadline name args =
     \<lparr>Path = name, Args = name # args, Dir = [], Env = [], Deadline = deadline\<rparr>"

text \<open>
  What the child process and the context deliver to \<open>cmd.Run()\<close>.
  \<open>stdout_chunks\<close> and \<open>stderr_chunks\<close> are the chunks that the reads from the two
  pipes of the child return, in order, for a goroutine that copies to the end.
  \<open>wait_err\<close> is the error \<open>Run\<close> has from starting the process and waiting for it:
  nil when the process was started and exited with status 0, an \<open>*exec.ExitError\<close>
  with its exit code, or any other error (the process could not be started, for
  instance). \<open>ctx_err\<close> is \<open>ctx.Err()\<close> read after \<open>Run\<close> has returned.
\<close>

datatype run_error = ExitError int | OtherError string

datatype ctx_error = Canceled | DeadlineExceeded

record run_outcome =
  stdout_chunks :: "string list"
  stderr_chunks :: "string list"
  wait_err :: "run_error option"
  ctx_err :: "ctx_error option"
  elapsed :: int

text \<open>
  The error of \<open>cmd.Run()\<close>: \<open>Cmd.Wait\<close> reports an error of the copying goroutines
  only if the program otherwise exited normally. Of the errors of the two goroutines it
  reports the first to arrive; both can only be the short write (lemma
  \<open>io_Copy_error\<close> below), so the order does not show.
\<close>

definition Run_error :: "run_error option \<Rightarrow> string option \<Rightarrow> string option \<Rightarrow> run_error option" where
  "Run_error wait copy_out copy_err =
     (case wait of
        Some e \<Rightarrow> Some e
      | None \<Rightarrow>
          (case copy_out of
             Some msg \<Rightarrow> Some (OtherError msg)
           | None \<Rightarrow> map_option OtherError copy_err))"

text \<open>
  The operating system as the sandbox sees it: \<open>os.LookupEnv\<close>, \<open>filepath.Abs\<close>,
  \<open>os.CreateTemp\<close> (given the name pattern), \<open>File.WriteString\<close> (\<open>Some\<close> is its
  error) and \<open>Cmd_Run\<close>, what the process started for a command delivers. Results
  that carry an error use \<open>Inl\<close> for it.
\<close>

record os_model =
  LookupEnv :: "string \<Rightarrow> string option"
  Abs :: "string \<Rightarrow> string + string"
  CreateTemp :: "string \<Rightarrow> string + string"
  WriteString :: "string \<Rightarrow> string \<Rightarrow> string option"
  Cmd_Run :: "Cmd \<Rightarrow> run_outcome"

text \<open>The effects on the operating system, in the order they happen.\<close>

datatype sys_event =
    TempCreated string
  | FileWritten string string
  | Chmod string
  | FileRemoved string
  | CmdRun Cmd

text \<open>
  \<open>CustomEnv\<close> is a Go map; \<open>range\<close> visits its entries in an unspecified order. The
  association list \<open>CustomEnv config\<close> holds the entries in the order of that visit.
\<close>

definition buildEnvironment :: "Config \<Rightarrow> os_model \<Rightarrow> string list" where
  "buildEnvironment config os =
     (let env1 = concat (map (\<lambda>key. case LookupEnv os key of
                                         Some val \<Rightarrow> [key @ ''='' @ val]
                                       | None \<Rightarrow> [])
                             (AllowedEnv config));
          env2 = env1 @ map (\<lambda>(key, val). key @ ''='' @ val) (CustomEnv config);
          hasPath = list_ex (\<lambda>e. HasPrefix e ''PATH='') env2
      in if \<not> hasPath then env2 @ [''PATH=/usr/local/bin:/usr/bin:/bin''] else env2)"

text \<open>
  The text a capped writer holds after a sequence of \<open>Write\<close> calls, whoever the caller.
\<close>

definition captured :: "int \<Rightarrow> string list \<Rightarrow> string" where
  "captured lim writes = buf (fst (write_all (new_writer lim) writes))"

text \<open>
  \<open>runCommand\<close>. The command is run with the working directory and the environment set;
  \<open>stdout\<close> and \<open>stderr\<close> are the two capped writers after the copying goroutines
  have ended, \<open>err\<close> is the error of \<open>cmd.Run()\<close>.
\<close>

definition runCommand ::
  "Config \<Rightarrow> os_model \<Rightarrow> Cmd \<Rightarrow> sys_event list \<Rightarrow>
   (sandbox_error + ExecutionResult) \<times> sys_event list" where
  "runCommand config os cmd tr =
     (case Abs os (WorkingDir config) of
        Inl err \<Rightarrow> (Inl (ErrInvalidWorkingDir err), tr)
      | Inr absWorkDir \<Rightarrow>
          let cmd' = cmd\<lparr>Dir := absWorkDir, Env := buildEnvironment config os\<rparr>;
              out = Cmd_Run os cmd';
              tr' = tr @ [CmdRun cmd'];
              (stdout, copy_out) =
                 io_Copy (new_writer (MaxOutputBytes config)) (stdout_chunks out);
              (stderr, copy_err) =
                 io_Copy (new_writer (MaxOutputBytes config)) (stderr_chunks out);
              err = Run_error (wait_err out) copy_out copy_err;
              result = \<lparr>Stdout = buf stdout, Stderr = buf stderr,
                        ExitCode = 0, Duration = elapsed out, TimedOut = False\<rparr>
          in if ctx_err out = Some DeadlineExceeded
             then (Inr (result\<lparr>TimedOut := True, ExitCode := - 1\<rparr>), tr')
             else (case err of
                     None \<Rightarrow> (Inr result, tr')
                   | Some (ExitError code) \<Rightarrow> (Inr (result\<lparr>ExitCode := code\<rparr>), tr')
                   | Some (OtherError e) \<Rightarrow> (Inl (ErrExecutionFailed e), tr')))"

definition apply_timeout :: "Config \<Rightarrow> int option" where
  "apply_timeout config = (if Timeout config > 0 then Some (Timeout config) else None)"

definition Execute ::
  "go_lib \<Rightarrow> Config \<Rightarrow> os_model \<Rightarrow> string \<Rightarrow> string list \<Rightarrow> sys_event list \<Rightarrow>
   (sandbox_error + ExecutionResult) \<times> sys_event list" where
  "Execute lib config os command args tr =
     (let fullCommand = command @ '' '' @ Join args '' ''
      in case checkBlacklist lib config fullCommand of
           Some err \<Rightarrow> (Inl err, tr)
         | None \<Rightarrow>
             runCommand config os (CommandContext (apply_timeout config) command args) tr)"

definition script_ext :: "string \<Rightarrow> string" where
  "script_ext interpreter =
     (if interpreter = ''python'' \<or> interpreter = ''python3'' then ''.py''
      else if interpreter = ''node'' \<or> interpreter = ''nodejs'' then ''.js''
      else if interpreter = ''bash'' \<or> interpreter = ''sh'' then ''.sh''
      else if interpreter = ''go'' then ''.go''
      else ''.tmp'')"

text \<open>
  \<open>script_written\<close> is the text that goes into the temporary file. The deferred
  \<open>os.Remove\<close> runs on every return after the file was created.
\<close>

definition script_written :: "go_lib \<Rightarrow> string \<Rightarrow> string \<Rightarrow> string" where
  "script_written lib interpreter script =
     (if interpreter = ''python'' \<or> interpreter = ''python3''
      then wrapPythonScript lib script else script)"

definition ExecuteScript ::
  "go_lib \<Rightarrow> Config \<Rightarrow> os_model \<Rightarrow> string \<Rightarrow> string \<Rightarrow> sys_event list \<Rightarrow>
   (sandbox_error + ExecutionResult) \<times> sys_event list" where
  "ExecuteScript lib config os interpreter script tr =
     (case checkBlacklist lib config script of
        Some err \<Rightarrow> (Inl err, tr)
      | None \<Rightarrow>
          let deadline = apply_timeout config;
              script' = script_written lib interpreter script;
              ext = script_ext interpreter
          in case CreateTemp os (''looper-script-*'' @ ext) of
               Inl err \<Rightarrow> (Inl (ErrCreateTemp err), tr)
             | Inr tmpPath \<Rightarrow>
                 (case WriteString os tmpPath script' of
                    Some err \<Rightarrow>
                      (Inl (ErrWriteScript err),
                       tr @ [TempCreated tmpPath, FileRemoved tmpPath])
                  | None \<Rightarrow>
                      let tr1 = tr @ [TempCreated tmpPath, FileWritten tmpPath script'];
                          tr2 = (if interpreter = ''bash'' \<or> interpreter = ''sh''
                                 then tr1 @ [Chmod tmpPath] else tr1);
                          cmd = (if interpreter = ''go''
                                 then CommandContext deadline ''go'' [''run'', tmpPath]
                                 else CommandContext deadline interpreter [tmpPath])
                      in case runCommand config os cmd tr2 of
                           (res, tr3) \<Rightarrow> (res, tr3 @ [FileRemoved tmpPath])))"

section \<open>The agent loop (package agent, Agent.Run)\<close>

record AgentConfig =
  Model :: string
  SystemPrompt :: string
  MaxIterations :: int
  MaxTokens :: int

record Response =
  RespContent :: string
  RespToolCalls :: "ToolCall list"
  StopReason :: string
  RespUsage :: Usage

text \<open>
  A completion request; \<open>'d\<close> is the type of the tool definitions, which the loop
  only passes on.
\<close>

record 'd CompletionRequest =
  ReqModel :: string
  ReqMessages :: "Message list"
  ReqTools :: "'d list"
  ReqMaxTokens :: int
  ReqSystem :: string

datatype agent_error =
    ErrMaxIterations int
  | ErrContext ctx_error
  | ErrLLM string
  | ErrStream string

text \<open>
  What the loop calls but does not define. Everything outside the agent (the model
  backend, the tools and what they touch, the caller's context) is a state of type
  \<open>'w\<close> that the calls read and change:
  \<^item> \<open>Complete\<close> is \<open>Provider.Complete\<close>, with \<open>Inl\<close> for its error;
  \<^item> \<open>ctx_Err\<close> is \<open>ctx.Err()\<close> as the \<open>select\<close> at the top of an iteration sees
    it (\<open>None\<close> while the context is not done);
  \<^item> \<open>Unmarshal\<close> is \<open>json.Unmarshal\<close> into a map, with \<open>Inl\<close> for its error text;
  \<^item> a tool's \<open>Execute\<close> takes the parsed arguments and returns the result text, or
    \<open>Inl\<close> with the text of its error.

  Modelled from the spec: the tool registry (\<open>tools.Registry\<close>) is not among the
  sources. \<open>registry_Get\<close> is its \<open>Get(name) -> tool | not-found\<close> and
  \<open>tool_definitions\<close> stands for \<open>tools.ToDefinitions(registry.List())\<close>.
\<close>

record ('w, 'j, 'd) agent_env =
  aconfig :: AgentConfig
  Complete :: "'d CompletionRequest \<Rightarrow> 'w \<Rightarrow> (string + Response) \<times> 'w"
  ctx_Err :: "'w \<Rightarrow> ctx_error option"
  registry_Get :: "string \<Rightarrow> ('j \<Rightarrow> 'w \<Rightarrow> (string + string) \<times> 'w) option"
  tool_definitions :: "'d list"
  Unmarshal :: "string \<Rightarrow> string + 'j"

text \<open>
  The state the loop works on: the conversation context, the outside world, and a
  counter of the completion requests issued so far. The counter is not in the source;
  it is there to state how many requests a run issues.
\<close>

record ('v, 'w) agent_state =
  actx :: "'v Context"
  world :: 'w
  requests :: nat

definition executeTool ::
  "('w, 'j, 'd) agent_env \<Rightarrow> ToolCall \<Rightarrow> 'w \<Rightarrow> (string + string) \<times> 'w" where
  "executeTool env tc w =
     (case registry_Get env (Name tc) of
        None \<Rightarrow> (Inl (''unknown tool: '' @ Name tc), w)
      | Some tool \<Rightarrow>
          (case Unmarshal env (Arguments tc) of
             Inl err \<Rightarrow> (Inl (''invalid arguments: '' @ err), w)
           | Inr args \<Rightarrow> tool args w))"

text \<open>The body of \<open>for _, tc := range resp.ToolCalls\<close> for one call, and the loop.\<close>

definition exec_tool_call ::
  "('w, 'j, 'd) agent_env \<Rightarrow> ToolCall \<Rightarrow> ('v, 'w) agent_state \<Rightarrow> ('v, 'w) agent_state" where
  "exec_tool_call env tc st =
     (case executeTool env tc (world st) of
        (res, w') \<Rightarrow>
          let result = (case res of Inl err \<Rightarrow> ''Error: '' @ err | Inr r \<Rightarrow> r)
          in st\<lparr>actx := AddToolResult (ID tc) result (actx st), world := w'\<rparr>)"

fun exec_tools ::
  "('w, 'j, 'd) agent_env \<Rightarrow> ToolCall list \<Rightarrow> ('v, 'w) agent_state \<Rightarrow> ('v, 'w) agent_state" where
  "exec_tools env [] st = st"
| "exec_tools env (tc # tcs) st = exec_tools env tcs (exec_tool_call env tc st)"

definition limit_reached :: "('w, 'j, 'd) agent_env \<Rightarrow> ('v, 'w) agent_state \<Rightarrow> bool" where
  "limit_reached env st =
     (MaxIterations (aconfig env) > 0 \<and>
      IterationCount (actx st) \<ge> MaxIterations (aconfig env))"

definition build_request ::
  "('w, 'j, 'd) agent_env \<Rightarrow> 'v Context \<Rightarrow> 'd CompletionRequest" where
  "build_request env c =
     \<lparr>ReqModel = Model (aconfig env), ReqMessages = Messages c,
      ReqTools = tool_definitions env, ReqMaxTokens = MaxTokens (aconfig env),
      ReqSystem = SystemPrompt (aconfig env) @ GetSkillPrompt c\<rparr>"

text \<open>
  One iteration of the \<open>for\<close> loop of \<open>Run\<close>: \<open>Inl\<close> is a \<open>return\<close> (with the error
  or the final answer), \<open>Inr\<close> is the \<open>continue\<close> after the tool calls.
\<close>

definition Run_step ::
  "('w, 'j, 'd) agent_env \<Rightarrow> ('v, 'w) agent_state \<Rightarrow>
   ((agent_error + string) \<times> ('v, 'w) agent_state) + ('v, 'w) agent_state" where
  "Run_step env st =
     (if limit_reached env st
      then Inl (Inl (ErrMaxIterations (MaxIterations (aconfig env))), st)
      else
        let st1 = st\<lparr>actx := (actx st)\<lparr>IterationCount := IterationCount (actx st) + 1\<rparr>\<rparr>
        in case ctx_Err env (world st1) of
             Some err \<Rightarrow> Inl (Inl (ErrContext err), st1)
           | None \<Rightarrow>
               (case Complete env (build_request env (actx st1)) (world st1) of
                  (answer, w') \<Rightarrow>
                    let st2 = st1\<lparr>world := w', requests := requests st1 + 1\<rparr>
                    in case answer of
                         Inl err \<Rightarrow> Inl (Inl (ErrLLM err), st2)
                       | Inr resp \<Rightarrow>
                           let st3 = st2\<lparr>actx := UpdateUsage (RespUsage resp) (actx st2)\<rparr>
                           in if length (RespToolCalls resp) > 0
                              then Inr (exec_tools env (RespToolCalls resp)
                                     (st3\<lparr>actx := AddMessage
                                        (NewAssistantToolCallMessage (RespToolCalls resp))
                                        (actx st3)\<rparr>))
                              else Inl (Inr (RespContent resp),
                                     (if RespContent resp \<noteq> []
                                      then st3\<lparr>actx := AddAssistantMessage (RespContent resp)
                                                         (actx st3)\<rparr>
                                      else st3))))"

text \<open>
  The loop may run forever (with \<open>MaxIterations = 0\<close> and a model that keeps calling
  tools): \<open>None\<close> is the run that does not return.
\<close>

partial_function (option) Run_loop ::
  "('w, 'j, 'd) agent_env \<Rightarrow> ('v, 'w) agent_state \<Rightarrow>
   ((agent_error + string) \<times> ('v, 'w) agent_state) option" where
  "Run_loop env st =
     (case Run_step env st of
        Inl res \<Rightarrow> Some res
      | Inr st' \<Rightarrow> Run_loop env st')"

declare Run_loop.simps [code]

definition Run ::
  "('w, 'j, 'd) agent_env \<Rightarrow> string \<Rightarrow> ('v, 'w) agent_state \<Rightarrow>
   ((agent_error + string) \<times> ('v, 'w) agent_state) option" where
  "Run env userMessage st =
     Run_loop env (st\<lparr>actx := AddUserMessage userMessage (actx st)\<rparr>)"

section \<open>Streaming (package llm, CompleteStream)\<close>

text \<open>
  A \<open>StreamEvent\<close>, by its \<open>Type\<close>, with the fields that type uses. An event of a tool
  call carries a pointer to the provider's \<open>ToolCall\<close>; the constructor holds the value
  the pointer leads to when the event is sent.
\<close>

datatype StreamEvent =
    StreamEventText string
  | StreamEventToolCallStart ToolCall int
  | StreamEventToolCallDelta int string
  | StreamEventToolCallEnd ToolCall int
  | StreamEventDone Usage string
  | StreamEventError string

text \<open>
  What one turn of the read loop of the goroutine finds, in the order of its tests: the
  context is done; reading the line fails (other than by the end of the input, which
  is the end of the list); the line is empty, has no \<open>data: \<close> prefix or does not
  parse; the line is \<open>data: [DONE]\<close>; the line parses to a value of type \<open>'c\<close>.
\<close>

datatype 'c sse_line =
    Ctx_Done string
  | Read_Failed string
  | Line_Skipped
  | Line_Done
  | Line_Data 'c

text \<open>
  The local variables of the goroutine and the events sent so far. The Go maps
  \<open>toolCallArgs\<close> and \<open>toolCallStarted\<close> are read with their zero values for missing
  keys, so they are total functions here.
\<close>

record stream_state =
  toolCalls :: "int \<rightharpoonup> ToolCall"
  toolCallArgs :: "int \<Rightarrow> string"
  toolCallStarted :: "int \<Rightarrow> bool"
  inputTokens :: int
  outputTokens :: int
  stopReason :: string
  events :: "StreamEvent list"

definition stream_init :: stream_state where
  "stream_init =
     \<lparr>toolCalls = Map.empty, toolCallArgs = (\<lambda>idx. []), toolCallStarted = (\<lambda>idx. False),
      inputTokens = 0, outputTokens = 0, stopReason = [], events = []\<rparr>"

definition send :: "StreamEvent \<Rightarrow> stream_state \<Rightarrow> stream_state" where
  "send ev s = s\<lparr>events := events s @ [ev]\<rparr>"

definition done_event :: "stream_state \<Rightarrow> StreamEvent" where
  "done_event s =
     StreamEventDone \<lparr>InputTokens = inputTokens s, OutputTokens = outputTokens s\<rparr>
       (stopReason s)"

subsection \<open>The OpenAI adapter\<close>

record openaiStreamToolCall =
  TcIndex :: int
  TcID :: string
  FunctionName :: string
  FunctionArguments :: string

record openaiChoice =
  DeltaContent :: string
  DeltaToolCalls :: "openaiStreamToolCall list"
  FinishReason :: string

record openaiStreamResponse =
  Choices :: "openaiChoice list"
  ChunkUsage :: "(int \<times> int) option"

text \<open>
  The body of \<open>for _, tcDelta := range choice.Delta.ToolCalls\<close>. In the branch that
  updates an existing call, \<open>toolCalls[idx]\<close> is there, since \<open>toolCallStarted[idx]\<close>
  is set only together with it.
\<close>

definition openai_tool_delta :: "openaiStreamToolCall \<Rightarrow> stream_state \<Rightarrow> stream_state" where
  "openai_tool_delta tcDelta s =
     (let idx = TcIndex tcDelta;
          s1 =
            (if TcID tcDelta \<noteq> [] \<or> FunctionName tcDelta \<noteq> [] then
               (if \<not> toolCallStarted s idx then
                  let tc = \<lparr>ID = TcID tcDelta, Name = FunctionName tcDelta, Arguments = []\<rparr>
                  in send (StreamEventToolCallStart tc idx)
                       (s\<lparr>toolCalls := (toolCalls s)(idx \<mapsto> tc),
                          toolCallArgs := (toolCallArgs s)(idx := []),
                          toolCallStarted := (toolCallStarted s)(idx := True)\<rparr>)
                else
                  (case toolCalls s idx of
                     None \<Rightarrow> s
                   | Some tc \<Rightarrow>
                       let tc1 = (if TcID tcDelta \<noteq> [] then tc\<lparr>ID := TcID tcDelta\<rparr> else tc);
                           tc2 = (if FunctionName tcDelta \<noteq> []
                                  then tc1\<lparr>Name := FunctionName tcDelta\<rparr> else tc1)
                       in s\<lparr>toolCalls := (toolCalls s)(idx \<mapsto> tc2)\<rparr>))
             else s)
      in if FunctionArguments tcDelta \<noteq> [] then
           send (StreamEventToolCallDelta idx (FunctionArguments tcDelta))
             (s1\<lparr>toolCallArgs :=
                   (toolCallArgs s1)(idx := toolCallArgs s1 idx @ FunctionArguments tcDelta)\<rparr>)
         else s1)"

definition openai_chunk :: "openaiStreamResponse \<Rightarrow> stream_state \<Rightarrow> stream_state" where
  "openai_chunk streamResp s =
     (let s1 = (case ChunkUsage streamResp of
                  Some (prompt, completion) \<Rightarrow>
                    s\<lparr>inputTokens := prompt, outputTokens := completion\<rparr>
                | None \<Rightarrow> s)
      in case Choices streamResp of
           [] \<Rightarrow> s1
         | choice # _ \<Rightarrow>
             let s2 = (if FinishReason choice \<noteq> []
                       then s1\<lparr>stopReason := FinishReason choice\<rparr> else s1);
                 s3 = (if DeltaContent choice \<noteq> []
                       then send (StreamEventText (DeltaContent choice)) s2 else s2)
             in fold openai_tool_delta (DeltaToolCalls choice) s3)"

text \<open>
  The read loop: \<open>False\<close> when the loop is left by \<open>break\<close> (end of input or
  \<open>[DONE]\<close>), \<open>True\<close> when the goroutine has sent an error event and returned.
\<close>

fun openai_loop :: "openaiStreamResponse sse_line list \<Rightarrow> stream_state \<Rightarrow> bool \<times> stream_state" where
  "openai_loop [] s = (False, s)"
| "openai_loop (Ctx_Done err # rest) s = (True, send (StreamEventError err) s)"
| "openai_loop (Read_Failed err # rest) s = (True, send (StreamEventError err) s)"
| "openai_loop (Line_Skipped # rest) s = openai_loop rest s"
| "openai_loop (Line_Done # rest) s = (False, s)"
| "openai_loop (Line_Data streamResp # rest) s = openai_loop rest (openai_chunk streamResp s)"

text \<open>
  \<open>for idx, tc := range toolCalls\<close> after the loop. Go leaves the order of the visit
  open: \<open>order\<close> lists the keys as the \<open>range\<close> visits them.
\<close>

fun finalize_calls :: "int list \<Rightarrow> stream_state \<Rightarrow> stream_state" where
  "finalize_calls [] s = s"
| "finalize_calls (idx # rest) s =
     (case toolCalls s idx of
        None \<Rightarrow> finalize_calls rest s
      | Some tc \<Rightarrow>
          let tc' = tc\<lparr>Arguments := toolCallArgs s idx\<rparr>
          in finalize_calls rest
               (send (StreamEventToolCallEnd tc' idx) (s\<lparr>toolCalls := (toolCalls s)(idx \<mapsto> tc')\<rparr>)))"

text \<open>The events the channel of \<open>OpenAIProvider.CompleteStream\<close> delivers.\<close>

definition OpenAI_events :: "int list \<Rightarrow> openaiStreamResponse sse_line list \<Rightarrow> StreamEvent list" where
  "OpenAI_events order input =
     (case openai_loop input stream_init of
        (True, s) \<Rightarrow> events s
      | (False, s) \<Rightarrow>
          (let s' = finalize_calls order s in events (send (done_event s') s')))"

subsection \<open>The Anthropic adapter\<close>

record anthropicBlock =
  BlockType :: string
  BlockID :: string
  BlockName :: string

record anthropicEventDelta =
  DeltaType :: string
  DeltaText :: string
  PartialJSON :: string
  DeltaStopReason :: string

text \<open>
  \<open>MessageInputTokens\<close> is \<open>Message.Usage.InputTokens\<close> and \<open>UsageOutputTokens\<close> is
  \<open>Usage.OutputTokens\<close>, each \<open>None\<close> when the pointer is nil.
\<close>

record anthropicStreamEvent =
  EventType :: string
  MessageInputTokens :: "int option"
  EventIndex :: int
  ContentBlock :: "anthropicBlock option"
  EventDelta :: "anthropicEventDelta option"
  UsageOutputTokens :: "int option"

text \<open>
  The \<open>switch event.Type\<close>; \<open>True\<close> when the case is \<open>message_stop\<close>, which sends the
  done event and returns from the goroutine.
\<close>

definition anthropic_event :: "anthropicStreamEvent \<Rightarrow> stream_state \<Rightarrow> bool \<times> stream_state" where
  "anthropic_event event s =
     (if EventType event = ''message_start'' then
        (case MessageInputTokens event of
           Some n \<Rightarrow> (False, s\<lparr>inputTokens := n\<rparr>)
         | None \<Rightarrow> (False, s))
      else if EventType event = ''content_block_start'' then
        (case ContentBlock event of
           None \<Rightarrow> (False, s)
         | Some block \<Rightarrow>
             if BlockType block = ''tool_use'' then
               let tc = \<lparr>ID = BlockID block, Name = BlockName block, Arguments = []\<rparr>
               in (False, send (StreamEventToolCallStart tc (EventIndex event))
                     (s\<lparr>toolCalls := (toolCalls s)(EventIndex event \<mapsto> tc),
                        toolCallArgs := (toolCallArgs s)(EventIndex event := [])\<rparr>))
             else (False, s))
      else if EventType event = ''content_block_delta'' then
        (case EventDelta event of
           None \<Rightarrow> (False, s)
         | Some delta \<Rightarrow>
             if DeltaType delta = ''text_delta'' then
               (if DeltaText delta \<noteq> []
                then (False, send (StreamEventText (DeltaText delta)) s) else (False, s))
             else if DeltaType delta = ''input_json_delta'' then
               (if PartialJSON delta \<noteq> [] then
                  (False, send (StreamEventToolCallDelta (EventIndex event) (PartialJSON delta))
                     (s\<lparr>toolCallArgs := (toolCallArgs s)
                          (EventIndex event :=
                             toolCallArgs s (EventIndex event) @ PartialJSON delta)\<rparr>))
                else (False, s))
             else (False, s))
      else if EventType event = ''content_block_stop'' then
        (case toolCalls s (EventIndex event) of
           None \<Rightarrow> (False, s)
         | Some tc \<Rightarrow>
             let tc' = tc\<lparr>Arguments := toolCallArgs s (EventIndex event)\<rparr>
             in (False, send (StreamEventToolCallEnd tc' (EventIndex event))
                   (s\<lparr>toolCalls := (toolCalls s)(EventIndex event \<mapsto> tc')\<rparr>)))
      else if EventType event = ''message_delta'' then
        (let s1 = (case EventDelta event of
                     None \<Rightarrow> s
                   | Some delta \<Rightarrow>
                       if DeltaStopReason delta \<noteq> []
                       then s\<lparr>stopReason := DeltaStopReason delta\<rparr> else s)
         in case UsageOutputTokens event of
              Some n \<Rightarrow> (False, s1\<lparr>outputTokens := n\<rparr>)
            | None \<Rightarrow> (False, s1))
      else if EventType event = ''message_stop'' then (True, send (done_event s) s)
      else (False, s))"

fun anthropic_loop ::
  "anthropicStreamEvent sse_line list \<Rightarrow> stream_state \<Rightarrow> bool \<times> stream_state" where
  "anthropic_loop [] s = (False, s)"
| "anthropic_loop (Ctx_Done err # rest) s = (True, send (StreamEventError err) s)"
| "anthropic_loop (Read_Failed err # rest) s = (True, send (StreamEventError err) s)"
| "anthropic_loop (Line_Skipped # rest) s = anthropic_loop rest s"
| "anthropic_loop (Line_Done # rest) s = (False, s)"
| "anthropic_loop (Line_Data event # rest) s =
     (case anthropic_event event s of
        (True, s') \<Rightarrow> (True, s')
      | (False, s') \<Rightarrow> anthropic_loop rest s')"

text \<open>The events the channel of \<open>AnthropicProvider.CompleteStream\<close> delivers.\<close>

definition Anthropic_events :: "anthropicStreamEvent sse_line list \<Rightarrow> StreamEvent list" where
  "Anthropic_events input =
     (case anthropic_loop input stream_init of
        (True, s) \<Rightarrow> events s
      | (False, s) \<Rightarrow> events (send (done_event s) s))"

section \<open>The streaming agent loop (package agent, Agent.RunStream)\<close>

text \<open>
  What the loop collects from the events of one response: the text, the finished tool
  calls in the order of their end events, the calls started so far, and the usage.
\<close>

record stream_acc =
  content :: string
  calls :: "ToolCall list"
  currentToolCalls :: "int \<rightharpoonup> ToolCall"
  usage :: Usage

definition acc_init :: stream_acc where
  "acc_init =
     \<lparr>content = [], calls = [], currentToolCalls = Map.empty,
      usage = \<lparr>InputTokens = 0, OutputTokens = 0\<rparr>\<rparr>"

text \<open>
  \<open>for event := range eventChan\<close>: \<open>Inl\<close> is the \<open>return\<close> at an error event. The
  \<open>switch\<close> has no case for a \<open>ToolCallDelta\<close>. The handler callbacks only observe
  and are left out. The loop reads the id and the name of a call through the pointer of
  its start event, and the arguments through the pointer of its end event. \<open>consume\<close>
  takes what the event held when it was sent; the loop can find another value only if
  the adapter has written to these fields of the same call in between, as the OpenAI
  adapter does when a later chunk brings the id or the name again.
\<close>

fun consume :: "StreamEvent list \<Rightarrow> stream_acc \<Rightarrow> string + stream_acc" where
  "consume [] acc = Inr acc"
| "consume (StreamEventText t # evs) acc = consume evs (acc\<lparr>content := content acc @ t\<rparr>)"
| "consume (StreamEventToolCallStart tc idx # evs) acc =
     consume evs
       (acc\<lparr>currentToolCalls :=
             (currentToolCalls acc)(idx \<mapsto> \<lparr>ID = ID tc, Name = Name tc, Arguments = []\<rparr>)\<rparr>)"
| "consume (StreamEventToolCallDelta idx frag # evs) acc = consume evs acc"
| "consume (StreamEventToolCallEnd tc idx # evs) acc =
     (case currentToolCalls acc idx of
        None \<Rightarrow> consume evs acc
      | Some c \<Rightarrow>
          let c' = c\<lparr>Arguments := Arguments tc\<rparr>
          in consume evs
               (acc\<lparr>currentToolCalls := (currentToolCalls acc)(idx \<mapsto> c'),
                    calls := calls acc @ [c']\<rparr>))"
| "consume (StreamEventDone u reason # evs) acc = consume evs (acc\<lparr>usage := u\<rparr>)"
| "consume (StreamEventError err # evs) acc = Inl err"

text \<open>
  One iteration of the loop of \<open>RunStream\<close>; \<open>stream\<close> is the provider's
  \<open>CompleteStream\<close>, which returns an error or the events its channel delivers.
\<close>

definition RunStream_step ::
  "('w, 'j, 'd) agent_env \<Rightarrow>
   ('d CompletionRequest \<Rightarrow> 'w \<Rightarrow> (string + StreamEvent list) \<times> 'w) \<Rightarrow>
   ('v, 'w) agent_state \<Rightarrow>
   ((agent_error + string) \<times> ('v, 'w) agent_state) + ('v, 'w) agent_state" where
  "RunStream_step env stream st =
     (if limit_reached env st
      then Inl (Inl (ErrMaxIterations (MaxIterations (aconfig env))), st)
      else
        let st1 = st\<lparr>actx := (actx st)\<lparr>IterationCount := IterationCount (actx st) + 1\<rparr>\<rparr>
        in case ctx_Err env (world st1) of
             Some err \<Rightarrow> Inl (Inl (ErrContext err), st1)
           | None \<Rightarrow>
               (case stream (build_request env (actx st1)) (world st1) of
                  (answer, w') \<Rightarrow>
                    let st2 = st1\<lparr>world := w', requests := requests st1 + 1\<rparr>
                    in case answer of
                         Inl err \<Rightarrow> Inl (Inl (ErrLLM err), st2)
                       | Inr evs \<Rightarrow>
                           (case consume evs acc_init of
                              Inl err \<Rightarrow> Inl (Inl (ErrStream err), st2)
                            | Inr acc \<Rightarrow>
                                let st3 = st2\<lparr>actx := UpdateUsage (usage acc) (actx st2)\<rparr>
                                in if length (calls acc) > 0
                                   then Inr (exec_tools env (calls acc)
                                          (st3\<lparr>actx := AddMessage
                                             (NewAssistantToolCallMessage (calls acc))
                                             (actx st3)\<rparr>))
                                   else Inl (Inr (content acc),
                                          (if content acc \<noteq> []
                                           then st3\<lparr>actx := AddAssistantMessage (content acc)
                                                              (actx st3)\<rparr>
                                           else st3)))))"

partial_function (option) RunStream_loop ::
  "('w, 'j, 'd) agent_env \<Rightarrow>
   ('d CompletionRequest \<Rightarrow> 'w \<Rightarrow> (string + StreamEvent list) \<times> 'w) \<Rightarrow>
   ('v, 'w) agent_state \<Rightarrow>
   ((agent_error + string) \<times> ('v, 'w) agent_state) option" where
  "RunStream_loop env stream st =
     (case RunStream_step env stream st of
        Inl res \<Rightarrow> Some res
      | Inr st' \<Rightarrow> RunStream_loop env stream st')"

declare RunStream_loop.simps [code]

text \<open>
  \<open>RunStream\<close>: a provider that is not a \<open>StreamProvider\<close> (\<open>None\<close>) sends the call
  to \<open>Run\<close>.
\<close>

definition RunStream ::
  "('w, 'j, 'd) agent_env \<Rightarrow>
   ('d CompletionRequest \<Rightarrow> 'w \<Rightarrow> (string + StreamEvent list) \<times> 'w) option \<Rightarrow>
   string \<Rightarrow> ('v, 'w) agent_state \<Rightarrow>
   ((agent_error + string) \<times> ('v, 'w) agent_state) option" where
  "RunStream env streamProvider userMessage st =
     (case streamProvider of
        None \<Rightarrow> Run env userMessage st
      | Some stream \<Rightarrow>
          RunStream_loop env stream (st\<lparr>actx := AddUserMessage userMessage (actx st)\<rparr>))"

section \<open>Notions of the specification\<close>

text \<open>
  The definitions of this section follow the words of the specification, not the code;
  the theorems below compare the code with them.
\<close>

text \<open>
  A deny-list pattern read as a glob: \<open>*\<close> stands for any run of characters, every
  other character for itself. \<open>glob_here pat s\<close>: the pattern matches at the start of
  \<open>s\<close>; \<open>glob_contains pat s\<close>: it matches somewhere in \<open>s\<close> (plain containment when
  the pattern has no \<open>*\<close>).
\<close>

fun glob_here :: "string \<Rightarrow> string \<Rightarrow> bool" where
  "glob_here [] s = True"
| "glob_here (p # ps) s =
     (if p = CHR ''*'' then list_ex (glob_here ps) (suffixes s)
      else (case s of [] \<Rightarrow> False | x # xs \<Rightarrow> x = p \<and> glob_here ps xs))"

definition glob_contains :: "string \<Rightarrow> string \<Rightarrow> bool" where
  "glob_contains pat s = list_ex (glob_here pat) (suffixes s)"

text \<open>Plain containment: \<open>pat\<close> occurs somewhere in \<open>s\<close>, every character for itself.\<close>

definition substring :: "string \<Rightarrow> string \<Rightarrow> bool" where
  "substring pat s = list_ex (prefix pat) (suffixes s)"

text \<open>
  What the claim about the deny-list calls a match of a pattern: the glob reading when
  the pattern compiles as a regular expression, plain containment when it does not.
\<close>

definition pattern_matches :: "bool \<Rightarrow> string \<Rightarrow> string \<Rightarrow> bool" where
  "pattern_matches compiles pat s = (if compiles then glob_contains pat s else substring pat s)"



text \<open>
  The three parts of the child environment: the allow-listed names that exist in the
  parent, with the parent's values; the custom overrides; the default \<open>PATH\<close>.
  \<open>env_name\<close> is the variable an entry \<open>name=value\<close> sets.
\<close>

definition allowed_entries :: "Config \<Rightarrow> os_model \<Rightarrow> string list" where
  "allowed_entries config os =
     map (\<lambda>key. key @ ''='' @ the (LookupEnv os key))
       (filter (\<lambda>key. LookupEnv os key \<noteq> None) (AllowedEnv config))"

definition custom_entries :: "Config \<Rightarrow> string list" where
  "custom_entries config = map (\<lambda>(key, val). key @ ''='' @ val) (CustomEnv config)"

definition default_path :: string where
  "default_path = ''PATH=/usr/local/bin:/usr/bin:/bin''"

definition env_name :: "string \<Rightarrow> string" where
  "env_name e = takeWhile (\<lambda>c. c \<noteq> CHR ''='') e"

text \<open>
  A history in which no tool call is left unanswered: it is a sequence of turns, each an
  assistant message that requests tool calls followed by one tool-result message per
  call, in the order of the calls and carrying their ids.
\<close>

fun results_for :: "ToolCall list \<Rightarrow> Message list \<Rightarrow> bool" where
  "results_for [] ms = True"
| "results_for (tc # tcs) [] = False"
| "results_for (tc # tcs) (m # ms) =
     (Role m = RoleTool \<and> ToolCallID m = ID tc \<and> results_for tcs ms)"

function complete_turns :: "Message list \<Rightarrow> bool" where
  "complete_turns [] = True"
| "complete_turns (m # ms) =
     (Role m = RoleAssistant \<and> ToolCalls m \<noteq> [] \<and> results_for (ToolCalls m) ms \<and>
      complete_turns (drop (length (ToolCalls m)) ms))"
  by pat_completeness auto
termination
  by (relation "measure length") auto

text \<open>
  The arguments of a streamed tool call. \<open>delta_concat idx evs\<close> is the concatenation,
  in delivery order, of the fragments of the \<open>ToolCallDelta\<close> events for \<open>idx\<close>;
  \<open>roundtrip evs\<close>: every \<open>ToolCallEnd\<close> event carries, as its arguments, that
  concatenation for its index.
\<close>

fun delta_concat :: "int \<Rightarrow> StreamEvent list \<Rightarrow> string" where
  "delta_concat idx [] = []"
| "delta_concat idx (StreamEventToolCallDelta i frag # evs) =
     (if i = idx then frag @ delta_concat idx evs else delta_concat idx evs)"
| "delta_concat idx (ev # evs) = delta_concat idx evs"

fun end_carries :: "StreamEvent list \<Rightarrow> StreamEvent \<Rightarrow> bool" where
  "end_carries evs (StreamEventToolCallEnd tc idx) = (Arguments tc = delta_concat idx evs)"
| "end_carries evs ev = True"

definition roundtrip :: "StreamEvent list \<Rightarrow> bool" where
  "roundtrip evs = list_all (end_carries evs) evs"

text \<open>
  The order of events the specification describes for one response: an index is
  started at most once, and every argument fragment for an index comes after the
  \<open>ToolCallStart\<close> and before the \<open>ToolCallEnd\<close> of that index. \<open>started\<close> and
  \<open>ended\<close> are the indices that have had those events so far.
\<close>

fun ordered_from :: "int list \<Rightarrow> int list \<Rightarrow> StreamEvent list \<Rightarrow> bool" where
  "ordered_from started ended [] = True"
| "ordered_from started ended (StreamEventToolCallStart tc i # evs) =
     (i \<notin> set started \<and> ordered_from (i # started) ended evs)"
| "ordered_from started ended (StreamEventToolCallDelta i frag # evs) =
     (i \<in> set started \<and> i \<notin> set ended \<and> ordered_from started ended evs)"
| "ordered_from started ended (StreamEventToolCallEnd tc i # evs) =
     ordered_from started (i # ended) evs"
| "ordered_from started ended (ev # evs) = ordered_from started ended evs"

definition ordered :: "StreamEvent list \<Rightarrow> bool" where
  "ordered evs = ordered_from [] [] evs"

section \<open>Auxiliary definitions for the statements and the proofs\<close>

text \<open>
  The regular expression a pattern stands for, the escaped star \<open>\*\<close>, and the text of
  the expression \<open>checkBlacklist\<close> builds from a lower-cased pattern.
\<close>

definition tok :: "char \<Rightarrow> re_token" where
  "tok c = (if c = CHR ''*'' then AnyRun else Lit c)"

definition star_esc :: string where
  "star_esc = [backslash, CHR ''*'']"

definition pattern_regex :: "string \<Rightarrow> string" where
  "pattern_regex p = ReplaceAll (QuoteMeta p) star_esc ''.*''"

text \<open>The world after the tool calls \<open>tcs\<close> have been executed one after the other.\<close>

fun tools_world :: "('w, 'j, 'd) agent_env \<Rightarrow> ToolCall list \<Rightarrow> 'w \<Rightarrow> 'w" where
  "tools_world env [] w = w"
| "tools_world env (tc # tcs) w = tools_world env tcs (snd (executeTool env tc w))"

text \<open>The state an iteration of the loop ends in, whether it returns or continues.\<close>

definition state_after ::
  "((agent_error + string) \<times> ('v, 'w) agent_state) + ('v, 'w) agent_state \<Rightarrow>
   ('v, 'w) agent_state" where
  "state_after r = (case r of Inl (res, st) \<Rightarrow> st | Inr st \<Rightarrow> st)"

text \<open>
  What an adapter does with the fragments, replayed on the events: \<open>args_after a evs\<close>
  are the accumulated arguments per index after the events, from the accumulators \<open>a\<close>
  (a start resets the accumulator of its index, a fragment is appended to it);
  \<open>ends_tracked a evs\<close>: every \<open>ToolCallEnd\<close> carries the accumulator of its index as
  it is when the event is sent.
\<close>

fun args_after :: "(int \<Rightarrow> string) \<Rightarrow> StreamEvent list \<Rightarrow> int \<Rightarrow> string" where
  "args_after a [] = a"
| "args_after a (StreamEventToolCallStart tc i # evs) = args_after (a(i := [])) evs"
| "args_after a (StreamEventToolCallDelta i frag # evs) = args_after (a(i := a i @ frag)) evs"
| "args_after a (ev # evs) = args_after a evs"

fun ends_tracked :: "(int \<Rightarrow> string) \<Rightarrow> StreamEvent list \<Rightarrow> bool" where
  "ends_tracked a [] = True"
| "ends_tracked a (StreamEventToolCallStart tc i # evs) = ends_tracked (a(i := [])) evs"
| "ends_tracked a (StreamEventToolCallDelta i frag # evs) =
     ends_tracked (a(i := a i @ frag)) evs"
| "ends_tracked a (StreamEventToolCallEnd tc i # evs) =
     (Arguments tc = a i \<and> ends_tracked a evs)"
| "ends_tracked a (ev # evs) = ends_tracked a evs"

text \<open>
  The invariant of both adapters: the events sent so far replay to the accumulators the
  adapter holds, and every \<open>ToolCallEnd\<close> sent carried the accumulator of its index.
\<close>

definition tracks :: "stream_state \<Rightarrow> bool" where
  "tracks s = (ends_tracked (\<lambda>idx. []) (events s) \<and>
               args_after (\<lambda>idx. []) (events s) = toolCallArgs s)"

section \<open>Example inputs\<close>


definition kelvin :: string where
  "kelvin = [CHR 0xE2, CHR 0x84, CHR 0xAA]"

fun lower_kelvin :: "string \<Rightarrow> string" where
  "lower_kelvin (a # b # c # cs) =
     (if a = CHR 0xE2 \<and> b = CHR 0x84 \<and> c = CHR 0xAA then CHR ''k'' # lower_kelvin cs
      else to_lower_char a # lower_kelvin (b # c # cs))"
| "lower_kelvin cs = map to_lower_char cs"

fun trim_left :: "string \<Rightarrow> string" where
  "trim_left (a # b # cs) =
     (if a = CHR 0xC2 \<and> b = CHR 0xA0 then trim_left cs
      else if asciiSpace a then trim_left (b # cs)
      else a # b # cs)"
| "trim_left [a] = (if asciiSpace a then [] else [a])"
| "trim_left [] = []"

fun trim_right_rev :: "string \<Rightarrow> string" where
  "trim_right_rev (a # b # cs) =
     (if a = CHR 0xA0 \<and> b = CHR 0xC2 then trim_right_rev cs
      else if asciiSpace a then trim_right_rev (b # cs)
      else a # b # cs)"
| "trim_right_rev [a] = (if asciiSpace a then [] else [a])"
| "trim_right_rev [] = []"

definition example_lib :: go_lib where
  "example_lib =
     \<lparr>Map_ToLower = lower_kelvin,
      TrimFunc_IsSpace = (\<lambda>s. rev (trim_right_rev (rev (trim_left s)))),
      TrimRightFunc_IsSpace = (\<lambda>s. rev (trim_right_rev (rev s))),
      Compile_error = (\<lambda>expr. False)\<rparr>"

text \<open>The same library with a compiler that refuses every expression.\<close>

definition strict_lib :: go_lib where
  "strict_lib = example_lib\<lparr>Compile_error := (\<lambda>expr. True)\<rparr>"

text \<open>
  A parent environment with \<open>PATH\<close> and \<open>SECRET\<close>, a file system where every call
  succeeds, and five outcomes of running a command: it prints \<open>2\<close> and exits with
  status 0, it is killed at the deadline, it exits with status 3, it cannot be started,
  it prints \<open>hello world\<close> and exits with status 0.
\<close>

definition example_outcome :: run_outcome where
  "example_outcome =
     \<lparr>stdout_chunks = [''2'' @ [newline]], stderr_chunks = [], wait_err = None,
      ctx_err = None, elapsed = 5\<rparr>"

definition timeout_outcome :: run_outcome where
  "timeout_outcome =
     \<lparr>stdout_chunks = [], stderr_chunks = [], wait_err = Some (ExitError (- 1)),
      ctx_err = Some DeadlineExceeded, elapsed = 30\<rparr>"

definition exit3_outcome :: run_outcome where
  "exit3_outcome =
     \<lparr>stdout_chunks = [], stderr_chunks = [''boom''], wait_err = Some (ExitError 3),
      ctx_err = None, elapsed = 1\<rparr>"

definition start_failure_outcome :: run_outcome where
  "start_failure_outcome =
     \<lparr>stdout_chunks = [], stderr_chunks = [],
      wait_err = Some (OtherError ''fork/exec: permission denied''),
      ctx_err = None, elapsed = 0\<rparr>"

definition hello_outcome :: run_outcome where
  "hello_outcome =
     \<lparr>stdout_chunks = [''hello world'' @ [newline]], stderr_chunks = [], wait_err = None,
      ctx_err = None, elapsed = 1\<rparr>"

definition example_os :: "run_outcome \<Rightarrow> os_model" where
  "example_os outcome =
     \<lparr>LookupEnv = [''PATH'' \<mapsto> ''/bin'', ''SECRET'' \<mapsto> ''hunter2''],
      Abs = (\<lambda>p. Inr (''/work/'' @ p)),
      CreateTemp = (\<lambda>p. Inr (''/tmp/'' @ p)),
      WriteString = (\<lambda>p c. None),
      Cmd_Run = (\<lambda>c. outcome)\<rparr>"

definition example_config :: "string list \<Rightarrow> Config" where
  "example_config deny =
     \<lparr>WorkingDir = ''ws'', Timeout = 30, AllowedEnv = [''PATH'', ''HOME''],
      CustomEnv = [(''FOO'', ''bar'')], MaxOutputBytes = 8, CommandBlacklist = deny\<rparr>"

text \<open>
  An agent whose model answers every request with one call of the tool \<open>nope\<close>, which
  is not registered; nothing is ever cancelled.
\<close>

definition looping_response :: Response where
  "looping_response =
     \<lparr>RespContent = [],
      RespToolCalls = [\<lparr>ID = ''call_1'', Name = ''nope'', Arguments = ''{}''\<rparr>],
      StopReason = ''tool_use'',
      RespUsage = \<lparr>InputTokens = 10, OutputTokens = 2\<rparr>\<rparr>"

definition looping_env :: "int \<Rightarrow> (unit, string, string) agent_env" where
  "looping_env m =
     \<lparr>aconfig = \<lparr>Model = ''model'', SystemPrompt = ''You are an agent.'',
                 MaxIterations = m, MaxTokens = 4096\<rparr>,
      Complete = (\<lambda>req w. (Inr looping_response, w)),
      ctx_Err = (\<lambda>w. None),
      registry_Get = (\<lambda>name. None),
      tool_definitions = [],
      Unmarshal = (\<lambda>raw. Inr raw)\<rparr>"

text \<open>
  The same agent with a registered tool \<open>boom\<close> that always fails, and a parser that
  accepts only \<open>{}\<close>.
\<close>

definition failing_env :: "(unit, string, string) agent_env" where
  "failing_env =
     (looping_env 5)
       \<lparr>registry_Get := [''boom'' \<mapsto> (\<lambda>args w. (Inl ''exit status 1'', w))],
        Unmarshal := (\<lambda>raw. if raw = ''{}'' then Inr raw
                            else Inl ''unexpected end of JSON input'')\<rparr>"

text \<open>
  An agent whose model answers with three calls in one response: the unknown tool
  \<open>nope\<close>, the tool \<open>boom\<close> with arguments that do not parse, and \<open>boom\<close> with
  arguments that do.
\<close>

definition three_calls :: "ToolCall list" where
  "three_calls =
     [\<lparr>ID = ''call_1'', Name = ''nope'', Arguments = ''{}''\<rparr>,
      \<lparr>ID = ''call_2'', Name = ''boom'', Arguments = ''{''\<rparr>,
      \<lparr>ID = ''call_3'', Name = ''boom'', Arguments = ''{}''\<rparr>]"

definition three_errors_env :: "(unit, string, string) agent_env" where
  "three_errors_env =
     failing_env
       \<lparr>Complete := (\<lambda>req w. (Inr (looping_response\<lparr>RespToolCalls := three_calls\<rparr>), w))\<rparr>"

definition fresh_state :: "(unit, unit) agent_state" where
  "fresh_state = \<lparr>actx = NewContext ''ws'', world = (), requests = 0\<rparr>"

text \<open>
  Two OpenAI streams for one tool call with the arguments \<open>{"a":1}\<close> in two
  fragments. In the first the id and the name come with the first fragment; in the
  second the first fragment comes alone and the id and the name follow with the second.
\<close>

definition tc_delta :: "int \<Rightarrow> string \<Rightarrow> string \<Rightarrow> string \<Rightarrow> openaiStreamResponse sse_line" where
  "tc_delta idx tid fname args =
     Line_Data \<lparr>Choices = [\<lparr>DeltaContent = [],
                              DeltaToolCalls = [\<lparr>TcIndex = idx, TcID = tid, FunctionName = fname,
                                                 FunctionArguments = args\<rparr>],
                              FinishReason = []\<rparr>],
                ChunkUsage = None\<rparr>"

definition openai_stream_ok :: "openaiStreamResponse sse_line list" where
  "openai_stream_ok =
     [tc_delta 0 ''call_1'' ''read_file'' (''{'' @ [CHR 0x22] @ ''a'' @ [CHR 0x22]),
      tc_delta 0 [] [] '':1}'', Line_Done]"

definition openai_stream_late_start :: "openaiStreamResponse sse_line list" where
  "openai_stream_late_start =
     [tc_delta 0 [] [] (''{'' @ [CHR 0x22] @ ''a'' @ [CHR 0x22]),
      tc_delta 0 ''call_1'' ''read_file'' '':1}'', Line_Done]"

text \<open>An Anthropic stream for the same call.\<close>

definition anthropic_line ::
  "string \<Rightarrow> int \<Rightarrow> anthropicBlock option \<Rightarrow> anthropicEventDelta option \<Rightarrow>
   anthropicStreamEvent sse_line" where
  "anthropic_line ty idx block delta =
     Line_Data \<lparr>EventType = ty, MessageInputTokens = None, EventIndex = idx,
                ContentBlock = block, EventDelta = delta, UsageOutputTokens = None\<rparr>"

definition json_delta :: "string \<Rightarrow> anthropicEventDelta option" where
  "json_delta frag =
     Some \<lparr>DeltaType = ''input_json_delta'', DeltaText = [], PartialJSON = frag,
           DeltaStopReason = []\<rparr>"

definition anthropic_stream_ok :: "anthropicStreamEvent sse_line list" where
  "anthropic_stream_ok =
     [anthropic_line ''content_block_start'' 1
        (Some \<lparr>BlockType = ''tool_use'', BlockID = ''toolu_1'', BlockName = ''read_file''\<rparr>)
        None,
      anthropic_line ''content_block_delta'' 1 None
        (json_delta (''{'' @ [CHR 0x22] @ ''a'' @ [CHR 0x22])),
      anthropic_line ''content_block_delta'' 1 None (json_delta '':1}''),
      anthropic_line ''content_block_stop'' 1 None None,
      anthropic_line ''message_stop'' 0 None None]"

section \<open>Properties\<close>

subsection \<open>Resetting the conversation context\<close>

text \<open>
  C9. \<open>Clear\<close> empties the message history and sets the iteration counter to zero; the
  loaded skills, the workspace path, the metadata map and both cumulative token counters
  keep the values they had before the call.
\<close>

theorem C9_clear_frame:
  "Messages (Clear c) = [] \<and> IterationCount (Clear c) = 0 \<and>
   LoadedSkills (Clear c) = LoadedSkills c \<and>
   WorkspacePath (Clear c) = WorkspacePath c \<and>
   Metadata (Clear c) = Metadata c \<and>
   TotalInputTokens (Clear c) = TotalInputTokens c \<and>
   TotalOutputTokens (Clear c) = TotalOutputTokens c"
  by (simp add: Clear_def)


subsection \<open>The output cap\<close>

lemma Write_invariant:
  assumes "buf lw = take (nat (limit lw)) produced" "written lw = int (length (buf lw))"
  shows "buf (fst (Write lw p)) = take (nat (limit lw)) (produced @ p) \<and>
         written (fst (Write lw p)) = int (length (buf (fst (Write lw p)))) \<and>
         limit (fst (Write lw p)) = limit lw"
  using assms
  by (auto simp: Write_def Buffer_Write_def Let_def min_def nat_le_iff nat_diff_distrib'
           split: if_splits)

lemma write_all_buf:
  assumes "buf lw = take (nat (limit lw)) produced" "written lw = int (length (buf lw))"
  shows "buf (fst (write_all lw ps)) = take (nat (limit lw)) (produced @ concat ps)"
  using assms
proof (induction ps arbitrary: lw produced)
  case Nil
  then show ?case by simp
next
  case (Cons p ps)
  obtain lw' n e where W: "Write lw p = (lw', n, e)" by (cases "Write lw p") auto
  have inv: "buf lw' = take (nat (limit lw)) (produced @ p)"
    "written lw' = int (length (buf lw'))" "limit lw' = limit lw"
    using Write_invariant[OF Cons.prems, of p] W by auto
  have "buf (fst (write_all lw' ps)) = take (nat (limit lw')) ((produced @ p) @ concat ps)"
    by (rule Cons.IH) (simp_all add: inv)
  then show ?case using W inv by (auto split: prod.splits)
qed

text \<open>
  The part of the cap that holds: whatever the sequence of writes, the captured text is
  the first \<open>lim\<close> bytes of what was produced, and \<open>Write\<close> never returns an error.
\<close>

lemma captured_prefix: "captured lim writes = take (nat lim) (concat writes)"
  unfolding captured_def
  using write_all_buf[of "new_writer lim" "[]" writes] by (simp add: new_writer_def)

lemma Write_no_error: "snd (snd (Write lw p)) = None"
  by (simp add: Write_def Buffer_Write_def Let_def)

text \<open>
  The count \<open>Write\<close> reports: the full length of the input, except for the write that
  crosses the cap, which reports only the bytes that still fitted.
\<close>

lemma Write_count:
  "fst (snd (Write lw p)) =
     (if written lw < limit lw \<and> limit lw - written lw < int (length p)
      then limit lw - written lw else int (length p))"
  by (auto simp: Write_def Buffer_Write_def Let_def)

text \<open>
  The copy to a capped writer. The writer ends with the first \<open>limit\<close> bytes of the
  output; the copy fails only with the short write; it does not fail when the output
  stays within the cap.
\<close>

lemma io_Copy_buf:
  assumes "buf lw = take (nat (limit lw)) produced" "written lw = int (length (buf lw))"
  shows "buf (fst (io_Copy lw chunks)) = take (nat (limit lw)) (produced @ concat chunks)"
  using assms
proof (induction chunks arbitrary: lw produced)
  case Nil
  then show ?case by simp
next
  case (Cons p ps)
  obtain lw' n e where W: "Write lw p = (lw', n, e)" by (cases "Write lw p") auto
  have inv: "buf lw' = take (nat (limit lw)) (produced @ p)"
    "written lw' = int (length (buf lw'))" "limit lw' = limit lw"
    using Write_invariant[OF Cons.prems, of p] W by auto
  have e: "e = None" using Write_no_error[of lw p] W by simp
  have n: "n = (if written lw < limit lw \<and> limit lw - written lw < int (length p)
                then limit lw - written lw else int (length p))"
    using Write_count[of lw p] W by simp
  show ?case
  proof (cases "written lw < limit lw \<and> limit lw - written lw < int (length p)")
    case True
    then have stop: "io_Copy lw (p # ps) = (lw', Some ErrShortWrite)"
      using W e n Cons.prems(2) by (simp add: Let_def)
    have "nat (limit lw) \<le> length (produced @ p)"
      using True Cons.prems by (auto simp: min_def split: if_splits)
    then have "take (nat (limit lw)) ((produced @ p) @ concat ps) =
        take (nat (limit lw)) (produced @ p)"
      by simp
    then show ?thesis using stop inv by simp
  next
    case False
    then have go: "io_Copy lw (p # ps) = io_Copy lw' ps"
      using W e n by (auto simp: Let_def)
    have "buf (fst (io_Copy lw' ps)) = take (nat (limit lw')) ((produced @ p) @ concat ps)"
      by (rule Cons.IH) (simp_all add: inv)
    then show ?thesis using go inv by simp
  qed
qed

lemma io_Copy_captured:
  "buf (fst (io_Copy (new_writer lim) chunks)) = take (nat lim) (concat chunks)"
  using io_Copy_buf[of "new_writer lim" "[]" chunks] by (simp add: new_writer_def)

lemma io_Copy_error:
  "snd (io_Copy lw chunks) = None \<or> snd (io_Copy lw chunks) = Some ErrShortWrite"
proof (induction chunks arbitrary: lw)
  case Nil
  then show ?case by simp
next
  case (Cons p ps)
  obtain lw' n e where W: "Write lw p = (lw', n, e)" by (cases "Write lw p") auto
  have e: "e = None" using Write_no_error[of lw p] W by simp
  have n: "n = (if written lw < limit lw \<and> limit lw - written lw < int (length p)
                then limit lw - written lw else int (length p))"
    using Write_count[of lw p] W by simp
  show ?case using W e n Cons.IH[of lw'] by (auto simp: Let_def)
qed

lemma io_Copy_within_cap:
  assumes "int (length (concat chunks)) \<le> lim"
  shows "io_Copy (new_writer lim) chunks =
           (\<lparr>buf = concat chunks, limit = lim, written = int (length (concat chunks))\<rparr>, None)"
proof -
  have "written lw = int (length (buf lw)) \<Longrightarrow>
        int (length (buf lw)) + int (length (concat chunks)) \<le> limit lw \<Longrightarrow>
        io_Copy lw chunks =
          (lw\<lparr>buf := buf lw @ concat chunks,
              written := int (length (buf lw)) + int (length (concat chunks))\<rparr>, None)" for lw
  proof (induction chunks arbitrary: lw)
    case Nil
    then show ?case by simp
  next
    case (Cons p ps)
    let ?lw' = "lw\<lparr>buf := buf lw @ p, written := written lw + int (length p)\<rparr>"
    have "p = [] \<or> written lw < limit lw" using Cons.prems by (cases p) auto
    then have W: "Write lw p = (?lw', int (length p), None)"
      using Cons.prems by (auto simp: Write_def Buffer_Write_def Let_def)
    have "io_Copy ?lw' ps =
        (?lw'\<lparr>buf := buf ?lw' @ concat ps,
              written := int (length (buf ?lw')) + int (length (concat ps))\<rparr>, None)"
      by (rule Cons.IH) (use Cons.prems in simp_all)
    then show ?case using W Cons.prems by (simp add: Let_def)
  qed
  from this[of "new_writer lim"] assms show ?thesis by (simp add: new_writer_def)
qed

text \<open>
  C5. Every write is to report its full input length as consumed. With a cap of 4 bytes
  and nothing written yet, writing the 11 bytes of \<open>hello world\<close> stores \<open>hell\<close> and
  reports 4, not 11: the source returns \<open>len(p)\<close> after \<open>p\<close> was cut to the remaining
  room, against its own comment (report the full length written).
\<close>

theorem C5_crossing_write_reports_short_count:
  "Write (new_writer 4) ''hello world'' =
     (\<lparr>buf = ''hell'', limit = 4, written = 4\<rparr>, 4, None) \<and>
   int (length ''hello world'') = 11"
  by (simp add: Write_def Buffer_Write_def new_writer_def)

subsection \<open>The Python wrapper\<close>











lemma runCommand_trace:
  "Abs os (WorkingDir config) = Inr dir \<Longrightarrow>
   snd (runCommand config os cmd tr) =
     tr @ [CmdRun (cmd\<lparr>Dir := dir, Env := buildEnvironment config os\<rparr>)]"
  by (simp add: runCommand_def Let_def split_beta split: option.splits run_error.splits)

lemma runCommand_trace_failed:
  "Abs os (WorkingDir config) = Inl e \<Longrightarrow> runCommand config os cmd tr = (Inl (ErrInvalidWorkingDir e), tr)"
  by (simp add: runCommand_def)








subsection \<open>The deny-list\<close>

lemma special_chars:
  "special backslash" "special (CHR ''*'')" "special (CHR ''.'')"
  "backslash \<noteq> CHR ''*''" "CHR ''.'' \<noteq> backslash" "CHR ''*'' \<noteq> backslash"
  by (simp_all add: special_def backslash_def)

lemma parse_lit: "\<not> special c \<Longrightarrow> parse_re (c # r) = map_option (Cons (Lit c)) (parse_re r)"
  using special_chars by (cases r) auto

lemma parse_star:
  "parse_re (CHR ''.'' # CHR ''*'' # r) = map_option (Cons AnyRun) (parse_re r)"
  by (simp add: special_chars)

lemma QuoteMeta_no_star: "\<not> prefix ''*'' (QuoteMeta cs)"
  using special_chars by (cases cs) auto

lemma Replace_nil: "ReplaceAll [] star_esc new = []"
  by (simp add: ReplaceAll.simps star_esc_def)

lemma Replace_star:
  "ReplaceAll (backslash # CHR ''*'' # r) star_esc new = new @ ReplaceAll r star_esc new"
  by (subst ReplaceAll.simps) (simp add: star_esc_def)

lemma Replace_other:
  "\<not> prefix star_esc (c # r) \<Longrightarrow>
   ReplaceAll (c # r) star_esc new = c # ReplaceAll r star_esc new"
  by (subst ReplaceAll.simps) (auto simp: star_esc_def)

text \<open>
  Every pattern is in the fragment: quoting and the replacement of \<open>\*\<close> by \<open>.*\<close>
  yield the expression with one literal per byte and \<open>AnyRun\<close> per star. The
  substring fallback of \<open>checkBlacklist\<close> is therefore taken only when the library's
  compiler refuses the expression.
\<close>

lemma parse_pattern:
  "parse_re (ReplaceAll (QuoteMeta p) star_esc ''.*'') = Some (map tok p)"
proof (induction p)
  case Nil
  then show ?case by (simp add: Replace_nil)
next
  case (Cons c cs)
  let ?R = "ReplaceAll (QuoteMeta cs) star_esc ''.*''"
  consider (star) "c = CHR ''*''" | (spec) "special c" "c \<noteq> CHR ''*''" | (plain) "\<not> special c"
    by blast
  then show ?case
  proof cases
    case star
    then have "ReplaceAll (QuoteMeta (c # cs)) star_esc ''.*'' = CHR ''.'' # CHR ''*'' # ?R"
      by (simp add: special_chars Replace_star)
    then show ?thesis
      using Cons.IH star by (simp add: parse_star tok_def special_chars)
  next
    case spec
    have n1: "\<not> prefix star_esc (backslash # c # QuoteMeta cs)"
      using spec by (simp add: star_esc_def)
    have n2: "\<not> prefix star_esc (c # QuoteMeta cs)"
      using QuoteMeta_no_star[of cs] by (auto simp: star_esc_def)
    have "ReplaceAll (QuoteMeta (c # cs)) star_esc ''.*'' = backslash # c # ?R"
      using spec n1 n2 by (simp add: Replace_other)
    then show ?thesis using Cons.IH spec by (simp add: tok_def)
  next
    case plain
    then have "c \<noteq> backslash" using special_chars by auto
    then have n: "\<not> prefix star_esc (c # QuoteMeta cs)" by (simp add: star_esc_def)
    have "ReplaceAll (QuoteMeta (c # cs)) star_esc ''.*'' = c # ?R"
      using plain n by (simp add: Replace_other)
    moreover have "c \<noteq> CHR ''*''" using plain special_chars by auto
    ultimately show ?thesis using Cons.IH plain by (simp add: parse_lit tok_def)
  qed
qed

lemma match_AnyRun:
  "newline \<notin> set s \<Longrightarrow>
   match_here (AnyRun # ts) s = (\<exists>t. suffix t s \<and> match_here ts t)"
proof (induction s)
  case Nil
  then show ?case by simp
next
  case (Cons x xs)
  then have "x \<noteq> newline" "newline \<notin> set xs" by auto
  then show ?case using Cons.IH by (auto simp: suffix_Cons)
qed

lemma no_newline_suffix: "newline \<notin> set s \<Longrightarrow> suffix t s \<Longrightarrow> newline \<notin> set t"
  by (auto simp: suffix_def)

lemma match_here_glob:
  "newline \<notin> set s \<Longrightarrow> match_here (map tok p) s = glob_here p s"
proof (induction p arbitrary: s)
  case Nil
  then show ?case by simp
next
  case (Cons c cs)
  show ?case
  proof (cases "c = CHR ''*''")
    case True
    then show ?thesis
      using Cons.IH Cons.prems no_newline_suffix[OF Cons.prems]
      by (auto simp: tok_def match_AnyRun list_ex_iff)
  next
    case False
    then show ?thesis using Cons by (cases s) (auto simp: tok_def)
  qed
qed

lemma MatchString_iff: "MatchString ts s = (\<exists>t. suffix t s \<and> match_here ts t)"
  by (induction s) (auto simp: suffix_Cons)

lemma MatchString_glob:
  assumes "newline \<notin> set s"
  shows "MatchString (map tok p) s = glob_contains p s"
  using no_newline_suffix[OF assms]
  by (auto simp: MatchString_iff glob_contains_def list_ex_iff match_here_glob)

lemma collapse_ws_no_newline: "newline \<notin> set (collapse_ws s)"
proof (induction s rule: collapse_ws.induct)
  case 1
  then show ?case by simp
next
  case (2 c cs)
  then show ?case by (auto simp: newline_def re_space_def)
qed

lemma Compile_pattern:
  "Compile lib (pattern_regex p) =
     (if Compile_error lib (pattern_regex p) then None else Some (map tok p))"
  by (simp add: Compile_def pattern_regex_def parse_pattern)

lemma Contains_substring: "Contains s sub = substring sub s"
  by (induction s) (auto simp: substring_def)

lemma check_patterns_blocks:
  assumes "P \<in> set pats"
    and "pattern_matches (\<not> Compile_error lib (pattern_regex (ToLower lib P)))
           (ToLower lib P) inp"
    and "newline \<notin> set inp"
  shows "\<exists>Q \<in> set pats. check_patterns lib inp pats = Some (ErrBlacklistedCommand Q)"
  using assms(1)
proof (induction pats)
  case Nil
  then show ?case by simp
next
  case (Cons a pats)
  let ?a = "ToLower lib a"
  have rx: "ReplaceAll (QuoteMeta ?a) [backslash, CHR ''*''] ''.*'' = pattern_regex ?a"
    by (simp add: pattern_regex_def star_esc_def)
  have hit: "(case Compile lib (pattern_regex ?a) of
               None \<Rightarrow> Contains inp ?a | Some re \<Rightarrow> MatchString re inp) =
             pattern_matches (\<not> Compile_error lib (pattern_regex ?a)) ?a inp"
    using MatchString_glob[OF assms(3), of ?a]
    by (simp add: Compile_pattern pattern_matches_def Contains_substring)
  show ?case
  proof (cases "pattern_matches (\<not> Compile_error lib (pattern_regex ?a)) ?a inp")
    case True
    then show ?thesis using hit by (simp add: Let_def rx split: option.splits)
  next
    case False
    then have "a \<noteq> P" using assms(2) by blast
    then have "P \<in> set pats" using Cons.prems by simp
    then show ?thesis using Cons.IH hit False by (auto simp: Let_def rx split: option.splits)
  qed
qed

text \<open>
  C1, as the code has it. The input is lower-cased and its whitespace runs are
  collapsed; a pattern is lower-cased only. A pattern \<open>P\<close> of the deny-list matches a
  text when, read as a glob, it matches somewhere in the text, or, if the regular
  expression built from it does not compile, when it occurs in the text. If \<open>P\<close>
  matches the normalised command line (or script body), then \<open>Execute\<close> (or
  \<open>ExecuteScript\<close>) returns the blacklist error for a pattern of the list and the
  trace of system effects is unchanged: no file is written and no command is run.
  Lower-casing is the library's, on all of Unicode.
\<close>

theorem C1_deny_list_blocks:
  assumes "P \<in> set (CommandBlacklist config)"
  shows "(pattern_matches (\<not> Compile_error lib (pattern_regex (ToLower lib P)))
            (ToLower lib P)
            (collapse_ws (ToLower lib (command @ '' '' @ Join args '' ''))) \<longrightarrow>
            (\<exists>Q \<in> set (CommandBlacklist config).
               Execute lib config os command args tr =
                 (Inl (ErrBlacklistedCommand Q), tr))) \<and>
         (pattern_matches (\<not> Compile_error lib (pattern_regex (ToLower lib P)))
            (ToLower lib P) (collapse_ws (ToLower lib script)) \<longrightarrow>
            (\<exists>Q \<in> set (CommandBlacklist config).
               ExecuteScript lib config os interpreter script tr =
                 (Inl (ErrBlacklistedCommand Q), tr)))"
proof -
  let ?m = "pattern_matches (\<not> Compile_error lib (pattern_regex (ToLower lib P)))
              (ToLower lib P)"
  have ne: "length (CommandBlacklist config) \<noteq> 0" using assms by auto
  have blocks: "\<exists>Q \<in> set (CommandBlacklist config).
                  checkBlacklist lib config input = Some (ErrBlacklistedCommand Q)"
    if "?m (collapse_ws (ToLower lib input))" for input
    using check_patterns_blocks[OF assms that collapse_ws_no_newline] ne
    by (simp add: checkBlacklist_def)
  show ?thesis
  proof (intro conjI impI)
    assume "?m (collapse_ws (ToLower lib (command @ '' '' @ Join args '' '')))"
    from blocks[OF this]
    show "\<exists>Q \<in> set (CommandBlacklist config).
            Execute lib config os command args tr = (Inl (ErrBlacklistedCommand Q), tr)"
      by (auto simp: Execute_def Let_def)
  next
    assume "?m (collapse_ws (ToLower lib script))"
    from blocks[OF this]
    show "\<exists>Q \<in> set (CommandBlacklist config).
            ExecuteScript lib config os interpreter script tr =
              (Inl (ErrBlacklistedCommand Q), tr)"
      by (auto simp: ExecuteScript_def)
  qed
qed

text \<open>
  Two patterns, one that compiles and one that the compiler of \<open>strict_lib\<close> refuses:
  the first blocks as a glob, the second where it occurs. In the third example the
  script spells \<open>mkfs.\<close> with a Kelvin sign for the \<open>k\<close>, which lower-casing maps to
  \<open>k\<close>.
\<close>

lemma deny_example_command:
  "pattern_matches (\<not> Compile_error example_lib (pattern_regex (ToLower example_lib ''curl * | sh'')))
     (ToLower example_lib ''curl * | sh'')
     (collapse_ws (ToLower example_lib
        (''bash'' @ '' '' @ Join [''-c'', ''CURL http://x   |  sh''] '' '')))"
  by code_simp

lemma deny_example_script:
  "pattern_matches (\<not> Compile_error strict_lib (pattern_regex (ToLower strict_lib ''MKFS.'')))
     (ToLower strict_lib ''MKFS.'') (collapse_ws (ToLower strict_lib ''sudo  mkfs.ext4 /dev/sda''))"
  by code_simp

lemma deny_example_kelvin:
  "pattern_matches (\<not> Compile_error example_lib (pattern_regex (ToLower example_lib ''mkfs.'')))
     (ToLower example_lib ''mkfs.'')
     (collapse_ws (ToLower example_lib (''m'' @ kelvin @ ''fs.ext4 /dev/sda'')))"
  by code_simp

theorem C1_deny_list_blocks_witness:
  "Execute example_lib (example_config [''curl * | sh'']) (example_os example_outcome)
     ''bash'' [''-c'', ''CURL http://x   |  sh''] [] =
     (Inl (ErrBlacklistedCommand ''curl * | sh''), []) \<and>
   ExecuteScript strict_lib (example_config [''MKFS.'']) (example_os example_outcome)
     ''bash'' ''sudo  mkfs.ext4 /dev/sda'' [] =
     (Inl (ErrBlacklistedCommand ''MKFS.''), []) \<and>
   ExecuteScript example_lib (example_config [''mkfs.'']) (example_os example_outcome)
     ''bash'' (''m'' @ kelvin @ ''fs.ext4 /dev/sda'') [] =
     (Inl (ErrBlacklistedCommand ''mkfs.''), [])"
proof -
  have mem: "''curl * | sh'' \<in> set (CommandBlacklist (example_config [''curl * | sh'']))"
    "''MKFS.'' \<in> set (CommandBlacklist (example_config [''MKFS.'']))"
    "''mkfs.'' \<in> set (CommandBlacklist (example_config [''mkfs.'']))"
    by (simp_all add: example_config_def)
  show ?thesis
    using C1_deny_list_blocks[OF mem(1), of example_lib "''bash''"
        "[''-c'', ''CURL http://x   |  sh'']" "example_os example_outcome" "[]"]
      C1_deny_list_blocks[OF mem(2), of strict_lib _ _ "example_os example_outcome" "[]"
        "''sudo  mkfs.ext4 /dev/sda''" "''bash''"]
      C1_deny_list_blocks[OF mem(3), of example_lib _ _ "example_os example_outcome" "[]"
        "''m'' @ kelvin @ ''fs.ext4 /dev/sda''" "''bash''"]
      deny_example_command deny_example_script deny_example_kelvin
    by (simp add: example_config_def)
qed

text \<open>
  The claim as stated, with the pattern whitespace-normalised as well, fails: the
  pattern \<open>rm  -rf\<close> (two spaces) becomes \<open>rm -rf\<close> when normalised and then occurs in
  the command line \<open>rm -rf build\<close>, yet \<open>Execute\<close> runs the command.
\<close>

theorem C1_normalised_pattern_counterexample:
  "''rm  -rf'' \<in> set (CommandBlacklist (example_config [''rm  -rf''])) \<and>
   pattern_matches True (collapse_ws (ToLower example_lib ''rm  -rf''))
     (collapse_ws (ToLower example_lib (''rm'' @ '' '' @ Join [''-rf'', ''build''] '' ''))) \<and>
   Execute example_lib (example_config [''rm  -rf'']) (example_os example_outcome)
     ''rm'' [''-rf'', ''build''] [] =
     (Inr \<lparr>Stdout = ''2'' @ [newline], Stderr = [], ExitCode = 0, Duration = 5,
           TimedOut = False\<rparr>,
      [CmdRun \<lparr>Path = ''rm'', Args = [''rm'', ''-rf'', ''build''], Dir = ''/work/ws'',
               Env = [''PATH=/bin'', ''FOO=bar''], Deadline = Some 30\<rparr>])"
  by code_simp

subsection \<open>The deny-list check and the Python wrapper\<close>

lemma snd_runCommand_mono: "set tr \<subseteq> set (snd (runCommand config os cmd tr))"
  by (cases "Abs os (WorkingDir config)") (auto simp: runCommand_trace runCommand_trace_failed)

lemma runCommand_ignores_deny_list:
  "runCommand (config\<lparr>CommandBlacklist := deny\<rparr>) os cmd tr = runCommand config os cmd tr"
proof -
  have "buildEnvironment (config\<lparr>CommandBlacklist := deny\<rparr>) os = buildEnvironment config os"
    by (simp add: buildEnvironment_def)
  then show ?thesis
    by (simp add: runCommand_def cong: sum.case_cong)
qed

text \<open>
  C10. \<open>ExecuteScript\<close> checks the script as given: a script the deny-list rejects is
  refused with that error before anything is written or run, whatever the interpreter.
  A script the deny-list accepts is handled exactly as with an empty deny-list, so
  nothing else, in particular not the wrapper text, is checked; when the system calls
  succeed, the text written to the file is the wrapped script.
\<close>

theorem C10_check_precedes_wrapping:
  "(checkBlacklist lib config script = Some err \<longrightarrow>
      ExecuteScript lib config os interpreter script tr = (Inl err, tr)) \<and>
   (checkBlacklist lib config script = None \<longrightarrow>
      ExecuteScript lib config os interpreter script tr =
        ExecuteScript lib (config\<lparr>CommandBlacklist := []\<rparr>) os interpreter script tr) \<and>
   (checkBlacklist lib config script = None \<and>
    CreateTemp os (''looper-script-*'' @ script_ext interpreter) = Inr tmpPath \<and>
    WriteString os tmpPath (script_written lib interpreter script) = None \<longrightarrow>
      FileWritten tmpPath (script_written lib interpreter script)
        \<in> set (snd (ExecuteScript lib config os interpreter script tr)))"
proof (intro conjI impI)
  assume "checkBlacklist lib config script = Some err"
  then show "ExecuteScript lib config os interpreter script tr = (Inl err, tr)"
    by (simp add: ExecuteScript_def)
next
  assume "checkBlacklist lib config script = None"
  moreover have "checkBlacklist lib (config\<lparr>CommandBlacklist := []\<rparr>) script = None"
    by (simp add: checkBlacklist_def)
  moreover have "apply_timeout (config\<lparr>CommandBlacklist := []\<rparr>) = apply_timeout config"
    by (simp add: apply_timeout_def)
  ultimately show "ExecuteScript lib config os interpreter script tr =
        ExecuteScript lib (config\<lparr>CommandBlacklist := []\<rparr>) os interpreter script tr"
    by (simp add: ExecuteScript_def runCommand_ignores_deny_list Let_def
        cong: sum.case_cong option.case_cong)
next
  let ?w = "FileWritten tmpPath (script_written lib interpreter script)"
  assume a: "checkBlacklist lib config script = None \<and>
    CreateTemp os (''looper-script-*'' @ script_ext interpreter) = Inr tmpPath \<and>
    WriteString os tmpPath (script_written lib interpreter script) = None"
  have keep: "?w \<in> set (snd (runCommand config os cmd tr'))" if "?w \<in> set tr'" for cmd tr'
    using snd_runCommand_mono[of tr' config os cmd] that by auto
  show "?w \<in> set (snd (ExecuteScript lib config os interpreter script tr))"
    using a by (simp add: ExecuteScript_def Let_def split_beta keep)
qed


lemma wrapper_example_rejected:
  "checkBlacklist example_lib (example_config [''import base64'']) ''import  BASE64; 1'' =
     Some (ErrBlacklistedCommand ''import base64'')"
  by code_simp

lemma wrapper_example_accepted:
  "checkBlacklist example_lib (example_config [''import base64'']) ''1 + 1'' = None"
  by code_simp

lemma wrapper_example_would_match:
  "checkBlacklist example_lib (example_config [''import base64'']) (wrapPythonScript example_lib ''1 + 1'') =
     Some (ErrBlacklistedCommand ''import base64'')"
  by code_simp

theorem C10_check_precedes_wrapping_witness:
  "ExecuteScript example_lib (example_config [''import base64'']) (example_os example_outcome)
     ''python3'' ''import  BASE64; 1'' [] = (Inl (ErrBlacklistedCommand ''import base64''), []) \<and>
   checkBlacklist example_lib (example_config [''import base64'']) (wrapPythonScript example_lib ''1 + 1'') =
     Some (ErrBlacklistedCommand ''import base64'') \<and>
   ExecuteScript example_lib (example_config [''import base64'']) (example_os example_outcome)
     ''python3'' ''1 + 1'' [] =
   ExecuteScript example_lib ((example_config [''import base64''])\<lparr>CommandBlacklist := []\<rparr>)
     (example_os example_outcome) ''python3'' ''1 + 1'' [] \<and>
   FileWritten ''/tmp/looper-script-*.py'' (wrapPythonScript example_lib ''1 + 1'')
     \<in> set (snd (ExecuteScript example_lib (example_config [''import base64''])
                  (example_os example_outcome) ''python3'' ''1 + 1'' []))"
proof -
  let ?cfg = "example_config [''import base64'']"
  let ?os = "example_os example_outcome"
  let ?tmp = "''/tmp/looper-script-*.py''"
  have ct: "CreateTemp ?os (''looper-script-*'' @ script_ext ''python3'') = Inr ?tmp"
    by (simp add: example_os_def script_ext_def)
  have ws: "WriteString ?os ?tmp (script_written example_lib ''python3'' ''1 + 1'') = None"
    by (simp add: example_os_def)
  have sw: "script_written example_lib ''python3'' ''1 + 1'' = wrapPythonScript example_lib ''1 + 1''"
    by (simp add: script_written_def)
  have rejected: "ExecuteScript example_lib ?cfg ?os ''python3'' ''import  BASE64; 1'' [] =
      (Inl (ErrBlacklistedCommand ''import base64''), [])"
    using C10_check_precedes_wrapping[of example_lib ?cfg "''import  BASE64; 1''"
        "ErrBlacklistedCommand ''import base64''" ?os "''python3''" "[]" ?tmp]
      wrapper_example_rejected
    by blast
  have accepted: "ExecuteScript example_lib ?cfg ?os ''python3'' ''1 + 1'' [] =
      ExecuteScript example_lib (?cfg\<lparr>CommandBlacklist := []\<rparr>) ?os ''python3'' ''1 + 1'' [] \<and>
      FileWritten ?tmp (script_written example_lib ''python3'' ''1 + 1'')
        \<in> set (snd (ExecuteScript example_lib ?cfg ?os ''python3'' ''1 + 1'' []))"
    using C10_check_precedes_wrapping[of example_lib ?cfg "''1 + 1''"
        "ErrBlacklistedCommand ''import base64''" ?os "''python3''" "[]" ?tmp]
      wrapper_example_accepted ct ws
    by blast
  show ?thesis
    using rejected accepted wrapper_example_would_match unfolding sw by blast
qed

subsection \<open>The child environment\<close>

lemma concat_map_option:
  "concat (map (\<lambda>key. case f key of Some val \<Rightarrow> [g key val] | None \<Rightarrow> []) ks) =
   map (\<lambda>key. g key (the (f key))) (filter (\<lambda>key. f key \<noteq> None) ks)"
  by (induction ks) (auto split: option.splits)

lemma buildEnvironment_shape:
  "buildEnvironment config os =
     allowed_entries config os @ custom_entries config @
     (if list_ex (\<lambda>e. HasPrefix e ''PATH='')
           (allowed_entries config os @ custom_entries config)
      then [] else [default_path])"
  unfolding buildEnvironment_def allowed_entries_def custom_entries_def default_path_def Let_def
  by (simp add: concat_map_option[where g = "\<lambda>key val. key @ ''='' @ val"])

lemma env_name_entry: "CHR ''='' \<notin> set k \<Longrightarrow> env_name (k @ ''='' @ v) = k"
  unfolding env_name_def by (induction k) auto

lemma HasPrefix_entry: "HasPrefix (k @ ''='' @ v) (k @ ''='')"
  by (simp add: HasPrefix_def)

lemma runCommand_child_env:
  "CmdRun c \<in> set (snd (runCommand config os cmd tr)) \<Longrightarrow>
   CmdRun c \<in> set tr \<or> Env c = buildEnvironment config os"
  by (cases "Abs os (WorkingDir config)")
    (auto simp: runCommand_trace runCommand_trace_failed)

lemma runCommand_depends:
  assumes "Abs os (WorkingDir config) = Inr dir"
    and "LookupEnv os' = LookupEnv os" "Abs os' = Abs os"
    and "Cmd_Run os' (cmd\<lparr>Dir := dir, Env := buildEnvironment config os\<rparr>) =
         Cmd_Run os (cmd\<lparr>Dir := dir, Env := buildEnvironment config os\<rparr>)"
  shows "runCommand config os' cmd tr = runCommand config os cmd tr"
proof -
  have "buildEnvironment config os' = buildEnvironment config os"
    using assms(2) by (simp add: buildEnvironment_def)
  then show ?thesis using assms by (simp add: runCommand_def)
qed

lemma Execute_child_env:
  "CmdRun c \<in> set (snd (Execute lib config os command args [])) \<Longrightarrow>
   Env c = buildEnvironment config os"
  using runCommand_child_env[of c config os _ "[]"]
  by (auto simp: Execute_def Let_def split: option.splits)

lemma ExecuteScript_child_env:
  assumes "CmdRun c \<in> set (snd (ExecuteScript lib config os interpreter script []))"
  shows "Env c = buildEnvironment config os"
proof (cases "checkBlacklist lib config script")
  case (Some e)
  then show ?thesis using assms by (simp add: ExecuteScript_def)
next
  case None
  show ?thesis
  proof (cases "CreateTemp os (''looper-script-*'' @ script_ext interpreter)")
    case (Inl e)
    then show ?thesis using assms None by (simp add: ExecuteScript_def Let_def)
  next
    case (Inr tmpPath)
    let ?w = "script_written lib interpreter script"
    show ?thesis
    proof (cases "WriteString os tmpPath ?w")
      case (Some e)
      then show ?thesis using assms None Inr by (simp add: ExecuteScript_def Let_def)
    next
      case wrote: None
      let ?tr1 = "[TempCreated tmpPath, FileWritten tmpPath ?w]"
      let ?tr2 = "if interpreter = ''bash'' \<or> interpreter = ''sh''
                  then ?tr1 @ [Chmod tmpPath] else ?tr1"
      let ?cmd = "if interpreter = ''go''
                  then CommandContext (apply_timeout config) ''go'' [''run'', tmpPath]
                  else CommandContext (apply_timeout config) interpreter [tmpPath]"
      have "snd (ExecuteScript lib config os interpreter script []) =
              snd (runCommand config os ?cmd ?tr2) @ [FileRemoved tmpPath]"
        using None Inr wrote by (simp add: ExecuteScript_def Let_def split_beta)
      then have "CmdRun c \<in> set (snd (runCommand config os ?cmd ?tr2))"
        using assms by simp
      from runCommand_child_env[OF this] show ?thesis by (auto split: if_splits)
    qed
  qed
qed

text \<open>
  C6. The child environment is the allow-listed entries, then the custom entries, then
  \<open>path_part\<close>, which is empty or the default \<open>PATH\<close>; the default is there only
  if neither the allow-list (with a parent value) nor the custom overrides set \<open>PATH\<close>.
  With names that contain no \<open>=\<close>, so that an entry \<open>name=value\<close> sets \<open>name\<close>, a
  name that is neither allow-listed nor a custom override is set by no entry, the
  default \<open>PATH\<close> apart. This list is what the child gets: once the working directory
  resolves, \<open>runCommand\<close> runs exactly one command, the one it was given with the
  directory and this environment set, and its result depends on the processes of the
  system through the outcome of that command only; every command that \<open>Execute\<close> and
  \<open>ExecuteScript\<close> run has this environment.
\<close>

theorem C6_child_environment:
  "\<exists>path_part.
     buildEnvironment config os =
       allowed_entries config os @ custom_entries config @ path_part \<and>
     (path_part = [] \<or> path_part = [default_path]) \<and>
     (path_part = [default_path] \<longrightarrow>
        \<not> (''PATH'' \<in> set (AllowedEnv config) \<and> LookupEnv os ''PATH'' \<noteq> None) \<and>
        ''PATH'' \<notin> fst ` set (CustomEnv config)) \<and>
     ((\<forall>k \<in> set (AllowedEnv config) \<union> fst ` set (CustomEnv config). CHR ''='' \<notin> set k) \<longrightarrow>
      (\<forall>name. name \<notin> set (AllowedEnv config) \<and> name \<notin> fst ` set (CustomEnv config) \<longrightarrow>
         (\<forall>e \<in> set (buildEnvironment config os).
            env_name e = name \<longrightarrow> e = default_path \<and> path_part = [default_path]))) \<and>
     (\<forall>dir child. Abs os (WorkingDir config) = Inr dir \<and>
        child = cmd\<lparr>Dir := dir,
                    Env := allowed_entries config os @ custom_entries config @ path_part\<rparr> \<longrightarrow>
        snd (runCommand config os cmd tr) = tr @ [CmdRun child] \<and>
        (\<forall>os'. LookupEnv os' = LookupEnv os \<and> Abs os' = Abs os \<and>
               Cmd_Run os' child = Cmd_Run os child \<longrightarrow>
           runCommand config os' cmd tr = runCommand config os cmd tr)) \<and>
     (\<forall>c. CmdRun c \<in> set (snd (Execute lib config os command args [])) \<longrightarrow>
        Env c = allowed_entries config os @ custom_entries config @ path_part) \<and>
     (\<forall>c. CmdRun c \<in> set (snd (ExecuteScript lib config os interpreter script [])) \<longrightarrow>
        Env c = allowed_entries config os @ custom_entries config @ path_part)"
proof -
  let ?base = "allowed_entries config os @ custom_entries config"
  let ?pp = "if list_ex (\<lambda>e. HasPrefix e ''PATH='') ?base then [] else [default_path]"
  have shape: "buildEnvironment config os = ?base @ ?pp"
    using buildEnvironment_shape[of config os] by simp
  have shape': "allowed_entries config os @ custom_entries config @ ?pp =
      buildEnvironment config os"
    using shape by simp
  have setpath: "list_ex (\<lambda>e. HasPrefix e ''PATH='') ?base"
    if "(''PATH'' \<in> set (AllowedEnv config) \<and> LookupEnv os ''PATH'' \<noteq> None) \<or>
        ''PATH'' \<in> fst ` set (CustomEnv config)"
    using that
  proof
    assume "''PATH'' \<in> set (AllowedEnv config) \<and> LookupEnv os ''PATH'' \<noteq> None"
    then have "''PATH'' @ ''='' @ the (LookupEnv os ''PATH'') \<in> set (allowed_entries config os)"
      unfolding allowed_entries_def set_map set_filter
      by (intro image_eqI[where x = "''PATH''"]) auto
    then show ?thesis
      unfolding list_ex_iff using HasPrefix_entry[of "''PATH''"] by fastforce
  next
    assume "''PATH'' \<in> fst ` set (CustomEnv config)"
    then obtain v where "(''PATH'', v) \<in> set (CustomEnv config)" by auto
    then have "''PATH'' @ ''='' @ v \<in> set (custom_entries config)"
      unfolding custom_entries_def set_map
      by (intro image_eqI[where x = "(''PATH'', v)"]) auto
    then show ?thesis
      unfolding list_ex_iff using HasPrefix_entry[of "''PATH''"] by fastforce
  qed
  have isolate: "name \<in> set (AllowedEnv config) \<or> name \<in> fst ` set (CustomEnv config)"
    if "e \<in> set ?base" "env_name e = name"
      and names: "\<forall>k \<in> set (AllowedEnv config) \<union> fst ` set (CustomEnv config).
                    CHR ''='' \<notin> set k"
    for e name
  proof -
    from that(1) consider
      (a) k where "k \<in> set (AllowedEnv config)" "e = k @ ''='' @ the (LookupEnv os k)"
    | (c) k v where "(k, v) \<in> set (CustomEnv config)" "e = k @ ''='' @ v"
      unfolding allowed_entries_def custom_entries_def by auto
    then show ?thesis
    proof cases
      case a
      then have "env_name e = k" using names env_name_entry by auto
      then show ?thesis using a that(2) by simp
    next
      case c
      then have "CHR ''='' \<notin> set k" using names by force
      then have "env_name e = k" using c env_name_entry by auto
      then show ?thesis using c that(2) by force
    qed
  qed
  show ?thesis
  proof (intro exI[of _ ?pp] conjI)
    show "buildEnvironment config os =
            allowed_entries config os @ custom_entries config @ ?pp"
      using shape by simp
    show "?pp = [] \<or> ?pp = [default_path]" by simp
    show "?pp = [default_path] \<longrightarrow>
        \<not> (''PATH'' \<in> set (AllowedEnv config) \<and> LookupEnv os ''PATH'' \<noteq> None) \<and>
        ''PATH'' \<notin> fst ` set (CustomEnv config)"
    proof
      assume "?pp = [default_path]"
      then have "\<not> list_ex (\<lambda>e. HasPrefix e ''PATH='') ?base"
        by (simp split: if_splits)
      then show "\<not> (''PATH'' \<in> set (AllowedEnv config) \<and> LookupEnv os ''PATH'' \<noteq> None) \<and>
        ''PATH'' \<notin> fst ` set (CustomEnv config)"
        using setpath by blast
    qed
    show "(\<forall>k \<in> set (AllowedEnv config) \<union> fst ` set (CustomEnv config). CHR ''='' \<notin> set k) \<longrightarrow>
      (\<forall>name. name \<notin> set (AllowedEnv config) \<and> name \<notin> fst ` set (CustomEnv config) \<longrightarrow>
         (\<forall>e \<in> set (buildEnvironment config os).
            env_name e = name \<longrightarrow> e = default_path \<and> ?pp = [default_path]))"
    proof (intro allI impI ballI)
      fix name e
      assume names: "\<forall>k \<in> set (AllowedEnv config) \<union> fst ` set (CustomEnv config).
                       CHR ''='' \<notin> set k"
        and n: "name \<notin> set (AllowedEnv config) \<and> name \<notin> fst ` set (CustomEnv config)"
        and e: "e \<in> set (buildEnvironment config os)" and en: "env_name e = name"
      have "e \<notin> set ?base" using isolate[OF _ en names] n by blast
      then show "e = default_path \<and> ?pp = [default_path]"
        using e unfolding shape by (auto split: if_splits)
    qed
    show "\<forall>dir child. Abs os (WorkingDir config) = Inr dir \<and>
        child = cmd\<lparr>Dir := dir,
                    Env := allowed_entries config os @ custom_entries config @ ?pp\<rparr> \<longrightarrow>
        snd (runCommand config os cmd tr) = tr @ [CmdRun child] \<and>
        (\<forall>os'. LookupEnv os' = LookupEnv os \<and> Abs os' = Abs os \<and>
               Cmd_Run os' child = Cmd_Run os child \<longrightarrow>
           runCommand config os' cmd tr = runCommand config os cmd tr)"
      unfolding shape' using runCommand_trace runCommand_depends by blast
    show "\<forall>c. CmdRun c \<in> set (snd (Execute lib config os command args [])) \<longrightarrow>
        Env c = allowed_entries config os @ custom_entries config @ ?pp"
      unfolding shape' using Execute_child_env by blast
    show "\<forall>c. CmdRun c \<in> set (snd (ExecuteScript lib config os interpreter script [])) \<longrightarrow>
        Env c = allowed_entries config os @ custom_entries config @ ?pp"
      unfolding shape' using ExecuteScript_child_env by blast
  qed
qed

text \<open>
  In the example the parent has \<open>PATH\<close> and \<open>SECRET\<close>; \<open>PATH\<close> and \<open>HOME\<close> are
  allow-listed and \<open>FOO\<close> is a custom override. The command that is run has the
  entries for \<open>PATH\<close> and \<open>FOO\<close>, and \<open>SECRET\<close> does not reach it. With only \<open>HOME\<close>
  allow-listed, the default \<open>PATH\<close> is added.
\<close>

theorem C6_child_environment_witness:
  "snd (Execute example_lib (example_config []) (example_os example_outcome) ''env'' [] []) =
     [CmdRun \<lparr>Path = ''env'', Args = [''env''], Dir = ''/work/ws'',
              Env = [''PATH=/bin'', ''FOO=bar''], Deadline = Some 30\<rparr>] \<and>
   list_all (\<lambda>e. env_name e \<noteq> ''SECRET'')
     (buildEnvironment (example_config []) (example_os example_outcome)) \<and>
   snd (runCommand ((example_config [])\<lparr>AllowedEnv := [''HOME'']\<rparr>)
          (example_os example_outcome) (CommandContext None ''env'' []) []) =
     [CmdRun \<lparr>Path = ''env'', Args = [''env''], Dir = ''/work/ws'',
              Env = [''FOO=bar'', ''PATH=/usr/local/bin:/usr/bin:/bin''], Deadline = None\<rparr>]"
proof -
  let ?cfg = "example_config []"
  let ?cfg' = "(example_config [])\<lparr>AllowedEnv := [''HOME'']\<rparr>"
  let ?os = "example_os example_outcome"
  let ?cmd = "CommandContext (Some 30) ''env'' []"
  let ?cmd' = "CommandContext None ''env'' []"
  have names: "\<forall>k \<in> set (AllowedEnv ?cfg) \<union> fst ` set (CustomEnv ?cfg). CHR ''='' \<notin> set k"
    by (simp add: example_config_def)
  have notin: "''SECRET'' \<notin> set (AllowedEnv ?cfg) \<and> ''SECRET'' \<notin> fst ` set (CustomEnv ?cfg)"
    by (simp add: example_config_def)
  have dflt: "env_name default_path \<noteq> ''SECRET''"
    by (simp add: env_name_def default_path_def)
  have abs: "Abs ?os (WorkingDir ?cfg) = Inr ''/work/ws''"
    "Abs ?os (WorkingDir ?cfg') = Inr ''/work/ws''"
    by (simp_all add: example_os_def example_config_def)
  have be: "buildEnvironment ?cfg ?os = [''PATH=/bin'', ''FOO=bar'']"
    "buildEnvironment ?cfg' ?os = [''FOO=bar'', ''PATH=/usr/local/bin:/usr/bin:/bin'']"
    by (simp_all add: buildEnvironment_def example_config_def example_os_def HasPrefix_def)
  have ex: "Execute example_lib ?cfg ?os ''env'' [] [] = runCommand ?cfg ?os ?cmd []"
    by (simp add: Execute_def checkBlacklist_def example_config_def apply_timeout_def)
  from C6_child_environment[of ?cfg ?os ?cmd "[]" example_lib "''env''" "[]" "''sh''" "''true''"]
  obtain pp where pp: "buildEnvironment ?cfg ?os =
        allowed_entries ?cfg ?os @ custom_entries ?cfg @ pp"
    and iso: "(\<forall>k \<in> set (AllowedEnv ?cfg) \<union> fst ` set (CustomEnv ?cfg). CHR ''='' \<notin> set k) \<longrightarrow>
      (\<forall>name. name \<notin> set (AllowedEnv ?cfg) \<and> name \<notin> fst ` set (CustomEnv ?cfg) \<longrightarrow>
         (\<forall>e \<in> set (buildEnvironment ?cfg ?os).
            env_name e = name \<longrightarrow> e = default_path \<and> pp = [default_path]))"
    and run: "\<forall>dir child. Abs ?os (WorkingDir ?cfg) = Inr dir \<and>
        child = ?cmd\<lparr>Dir := dir,
                    Env := allowed_entries ?cfg ?os @ custom_entries ?cfg @ pp\<rparr> \<longrightarrow>
        snd (runCommand ?cfg ?os ?cmd []) = [] @ [CmdRun child] \<and>
        (\<forall>os'. LookupEnv os' = LookupEnv ?os \<and> Abs os' = Abs ?os \<and>
               Cmd_Run os' child = Cmd_Run ?os child \<longrightarrow>
           runCommand ?cfg os' ?cmd [] = runCommand ?cfg ?os ?cmd [])"
    by (elim exE conjE)
  have pp3: "snd (runCommand ?cfg ?os ?cmd []) =
       [] @ [CmdRun (?cmd\<lparr>Dir := ''/work/ws'',
               Env := allowed_entries ?cfg ?os @ custom_entries ?cfg @ pp\<rparr>)]"
    using run abs(1) by blast
  have one: "snd (Execute example_lib ?cfg ?os ''env'' [] []) =
      [CmdRun \<lparr>Path = ''env'', Args = [''env''], Dir = ''/work/ws'',
               Env = [''PATH=/bin'', ''FOO=bar''], Deadline = Some 30\<rparr>]"
    using pp3 unfolding ex pp[symmetric] be by (simp add: CommandContext_def)
  have "env_name e \<noteq> ''SECRET''" if "e \<in> set (buildEnvironment ?cfg ?os)" for e
  proof -
    from iso names have "\<forall>name. name \<notin> set (AllowedEnv ?cfg) \<and>
          name \<notin> fst ` set (CustomEnv ?cfg) \<longrightarrow>
         (\<forall>e \<in> set (buildEnvironment ?cfg ?os).
            env_name e = name \<longrightarrow> e = default_path \<and> pp = [default_path])"
      by (rule mp)
    with notin that have "env_name e = ''SECRET'' \<longrightarrow> e = default_path" by blast
    then show ?thesis using dflt by blast
  qed
  then have two: "\<forall>e \<in> set (buildEnvironment ?cfg ?os). env_name e \<noteq> ''SECRET''"
    by blast
  from C6_child_environment[of ?cfg' ?os ?cmd' "[]" example_lib "''env''" "[]" "''sh''" "''true''"]
  obtain pp' where pp': "buildEnvironment ?cfg' ?os =
        allowed_entries ?cfg' ?os @ custom_entries ?cfg' @ pp'"
    and run': "\<forall>dir child. Abs ?os (WorkingDir ?cfg') = Inr dir \<and>
        child = ?cmd'\<lparr>Dir := dir,
                    Env := allowed_entries ?cfg' ?os @ custom_entries ?cfg' @ pp'\<rparr> \<longrightarrow>
        snd (runCommand ?cfg' ?os ?cmd' []) = [] @ [CmdRun child] \<and>
        (\<forall>os'. LookupEnv os' = LookupEnv ?os \<and> Abs os' = Abs ?os \<and>
               Cmd_Run os' child = Cmd_Run ?os child \<longrightarrow>
           runCommand ?cfg' os' ?cmd' [] = runCommand ?cfg' ?os ?cmd' [])"
    by (elim exE conjE)
  have pp3': "snd (runCommand ?cfg' ?os ?cmd' []) =
       [] @ [CmdRun (?cmd'\<lparr>Dir := ''/work/ws'',
               Env := allowed_entries ?cfg' ?os @ custom_entries ?cfg' @ pp'\<rparr>)]"
    using run' abs(2) by blast
  have three: "snd (runCommand ?cfg' ?os ?cmd' []) =
     [CmdRun \<lparr>Path = ''env'', Args = [''env''], Dir = ''/work/ws'',
              Env = [''FOO=bar'', ''PATH=/usr/local/bin:/usr/bin:/bin''], Deadline = None\<rparr>]"
    using pp3' unfolding pp'[symmetric] be by (simp add: CommandContext_def)
  show ?thesis using one two three unfolding list_all_iff by blast
qed

subsection \<open>Timeouts and exit codes\<close>

text \<open>
  What \<open>runCommand\<close> returns once the working directory resolves, with \<open>out\<close> what
  the process delivered. If the deadline has fired, the result has \<open>TimedOut\<close> set and
  exit code \<open>-1\<close>, and no error is returned. Otherwise an exit status of the child is
  reported as the result's exit code, with no error, and so is the exit with status 0 of
  a child whose output stays within the cap. An error is returned only when the deadline
  has not fired, and either the process failed with something other than an exit status,
  or it exited with status 0 and its output went beyond the cap on one of the streams.
\<close>

lemma runCommand_timeout_and_exit_code:
  assumes "Abs os (WorkingDir config) = Inr dir"
    and "out = Cmd_Run os (cmd\<lparr>Dir := dir, Env := buildEnvironment config os\<rparr>)"
  shows "ctx_err out = Some DeadlineExceeded \<Longrightarrow>
           \<exists>r. fst (runCommand config os cmd tr) = Inr r \<and> TimedOut r \<and> ExitCode r = - 1"
    and "ctx_err out \<noteq> Some DeadlineExceeded \<Longrightarrow> wait_err out = Some (ExitError code) \<Longrightarrow>
           \<exists>r. fst (runCommand config os cmd tr) = Inr r \<and> \<not> TimedOut r \<and> ExitCode r = code"
    and "ctx_err out \<noteq> Some DeadlineExceeded \<Longrightarrow> wait_err out = None \<Longrightarrow>
         int (length (concat (stdout_chunks out))) \<le> MaxOutputBytes config \<Longrightarrow>
         int (length (concat (stderr_chunks out))) \<le> MaxOutputBytes config \<Longrightarrow>
           fst (runCommand config os cmd tr) =
             Inr \<lparr>Stdout = concat (stdout_chunks out), Stderr = concat (stderr_chunks out),
                  ExitCode = 0, Duration = elapsed out, TimedOut = False\<rparr>"
    and "fst (runCommand config os cmd tr) = Inl e \<Longrightarrow>
           ctx_err out \<noteq> Some DeadlineExceeded \<and>
           ((\<exists>msg. wait_err out = Some (OtherError msg) \<and> e = ErrExecutionFailed msg) \<or>
            (wait_err out = None \<and> e = ErrExecutionFailed ErrShortWrite \<and>
             (MaxOutputBytes config < int (length (concat (stdout_chunks out))) \<or>
              MaxOutputBytes config < int (length (concat (stderr_chunks out))))))"
proof -
  let ?co = "io_Copy (new_writer (MaxOutputBytes config)) (stdout_chunks out)"
  let ?ce = "io_Copy (new_writer (MaxOutputBytes config)) (stderr_chunks out)"
  let ?err = "Run_error (wait_err out) (snd ?co) (snd ?ce)"
  let ?res = "\<lparr>Stdout = buf (fst ?co), Stderr = buf (fst ?ce), ExitCode = 0,
               Duration = elapsed out, TimedOut = False\<rparr>"
  have rc: "fst (runCommand config os cmd tr) =
      (if ctx_err out = Some DeadlineExceeded
       then Inr (?res\<lparr>TimedOut := True, ExitCode := - 1\<rparr>)
       else (case ?err of
               None \<Rightarrow> Inr ?res
             | Some (ExitError c) \<Rightarrow> Inr (?res\<lparr>ExitCode := c\<rparr>)
             | Some (OtherError m) \<Rightarrow> Inl (ErrExecutionFailed m)))"
    using assms
    by (simp add: runCommand_def Let_def split_beta split: option.splits run_error.splits)
  show "\<exists>r. fst (runCommand config os cmd tr) = Inr r \<and> TimedOut r \<and> ExitCode r = - 1"
    if "ctx_err out = Some DeadlineExceeded"
    using that rc by simp
  show "\<exists>r. fst (runCommand config os cmd tr) = Inr r \<and> \<not> TimedOut r \<and> ExitCode r = code"
    if "ctx_err out \<noteq> Some DeadlineExceeded" "wait_err out = Some (ExitError code)"
    using that rc by (simp add: Run_error_def)
  show "fst (runCommand config os cmd tr) =
             Inr \<lparr>Stdout = concat (stdout_chunks out), Stderr = concat (stderr_chunks out),
                  ExitCode = 0, Duration = elapsed out, TimedOut = False\<rparr>"
    if "ctx_err out \<noteq> Some DeadlineExceeded" "wait_err out = None"
      "int (length (concat (stdout_chunks out))) \<le> MaxOutputBytes config"
      "int (length (concat (stderr_chunks out))) \<le> MaxOutputBytes config"
    using that rc by (simp add: Run_error_def io_Copy_within_cap)
  show "ctx_err out \<noteq> Some DeadlineExceeded \<and>
           ((\<exists>msg. wait_err out = Some (OtherError msg) \<and> e = ErrExecutionFailed msg) \<or>
            (wait_err out = None \<and> e = ErrExecutionFailed ErrShortWrite \<and>
             (MaxOutputBytes config < int (length (concat (stdout_chunks out))) \<or>
              MaxOutputBytes config < int (length (concat (stderr_chunks out))))))"
    if failed: "fst (runCommand config os cmd tr) = Inl e"
  proof -
    have nd: "ctx_err out \<noteq> Some DeadlineExceeded" using failed rc by auto
    then obtain m where m: "?err = Some (OtherError m)" "e = ErrExecutionFailed m"
      using failed rc by (auto split: option.splits run_error.splits)
    show ?thesis
    proof (cases "wait_err out")
      case (Some w)
      then show ?thesis using m nd by (simp add: Run_error_def)
    next
      case None
      then have copy: "snd ?co = Some m \<or> snd ?ce = Some m"
        using m(1) by (auto simp: Run_error_def split: option.splits)
      then have "m = ErrShortWrite"
        using io_Copy_error[of "new_writer (MaxOutputBytes config)" "stdout_chunks out"]
          io_Copy_error[of "new_writer (MaxOutputBytes config)" "stderr_chunks out"]
        by auto
      moreover have "MaxOutputBytes config < int (length (concat (stdout_chunks out))) \<or>
              MaxOutputBytes config < int (length (concat (stderr_chunks out)))"
        using copy io_Copy_within_cap[of "stdout_chunks out" "MaxOutputBytes config"]
          io_Copy_within_cap[of "stderr_chunks out" "MaxOutputBytes config"]
        by fastforce
      ultimately show ?thesis using None m nd by simp
    qed
  qed
qed

text \<open>
  C4. A timeout and a non-zero exit are to be reported in the result, and errors are to
  be reserved for failures of the execution infrastructure. With a cap of 8 bytes, a
  child that writes the 12 bytes of \<open>hello world\<close> and a newline to its standard
  output and exits with status 0, before any deadline, makes \<open>Execute\<close> return the
  error \<open>execution failed: short write\<close> instead of a result with exit code 0. The
  capped writer reports the write that crosses the cap as a short one (see C5, the same
  defect), \<open>io.Copy\<close> gives up with \<open>io.ErrShortWrite\<close>, and \<open>cmd.Run()\<close> returns
  that error for a child that exited normally.
\<close>

theorem C4_output_beyond_cap_returns_error:
  "MaxOutputBytes (example_config []) = 8 \<and>
   hello_outcome =
     \<lparr>stdout_chunks = [''hello world'' @ [newline]], stderr_chunks = [],
      wait_err = None, ctx_err = None, elapsed = 1\<rparr> \<and>
   Execute example_lib (example_config []) (example_os hello_outcome)
     ''echo'' [''hello world''] [] =
     (Inl (ErrExecutionFailed ''short write''),
      [CmdRun \<lparr>Path = ''echo'', Args = [''echo'', ''hello world''], Dir = ''/work/ws'',
               Env = [''PATH=/bin'', ''FOO=bar''], Deadline = Some 30\<rparr>])"
  by code_simp

text \<open>
  Four runs where the code does as the claim says: one killed when the deadline fires,
  one that exits with status 3, one that exits with status 0 within the cap, and one
  whose process could not be started.
\<close>

lemma runCommand_examples:
  "fst (runCommand (example_config []) (example_os timeout_outcome)
         (CommandContext (Some 30) ''sleep'' [''60'']) []) =
     Inr \<lparr>Stdout = [], Stderr = [], ExitCode = - 1, Duration = 30, TimedOut = True\<rparr>"
  "fst (runCommand (example_config []) (example_os exit3_outcome)
         (CommandContext (Some 30) ''sleep'' [''60'']) []) =
     Inr \<lparr>Stdout = [], Stderr = ''boom'', ExitCode = 3, Duration = 1, TimedOut = False\<rparr>"
  "fst (runCommand (example_config []) (example_os example_outcome)
         (CommandContext (Some 30) ''sleep'' [''60'']) []) =
     Inr \<lparr>Stdout = ''2'' @ [newline], Stderr = [], ExitCode = 0, Duration = 5,
          TimedOut = False\<rparr>"
  "fst (runCommand (example_config []) (example_os start_failure_outcome)
         (CommandContext (Some 30) ''sleep'' [''60'']) []) =
     Inl (ErrExecutionFailed ''fork/exec: permission denied'')"
  by code_simp+

subsection \<open>The agent loop\<close>

lemma exec_tool_call_frame:
  "IterationCount (actx (exec_tool_call env tc st)) = IterationCount (actx st)"
  "requests (exec_tool_call env tc st) = requests st"
  by (simp_all add: exec_tool_call_def AddToolResult_def AddMessage_def Let_def
      split: prod.splits)

lemma exec_tool_call_messages:
  "\<exists>result. Messages (actx (exec_tool_call env tc st)) =
     Messages (actx st) @ [NewToolResultMessage (ID tc) result] \<and>
     (\<forall>err. fst (executeTool env tc (world st)) = Inl err \<longrightarrow> result = ''Error: '' @ err)"
  by (auto simp: exec_tool_call_def AddToolResult_def AddMessage_def Let_def
      split: prod.splits sum.splits)

lemma exec_tools_frame:
  "IterationCount (actx (exec_tools env tcs st)) = IterationCount (actx st)"
  "requests (exec_tools env tcs st) = requests st"
  by (induction tcs arbitrary: st) (simp_all add: exec_tool_call_frame)

lemma exec_tools_append:
  "exec_tools env (xs @ ys) st = exec_tools env ys (exec_tools env xs st)"
  by (induction xs arbitrary: st) simp_all

lemma exec_tools_messages:
  "\<exists>rs. Messages (actx (exec_tools env tcs st)) = Messages (actx st) @ rs \<and>
        length rs = length tcs \<and> results_for tcs rs"
proof (induction tcs arbitrary: st)
  case Nil
  then show ?case by simp
next
  case (Cons tc tcs)
  obtain result where r: "Messages (actx (exec_tool_call env tc st)) =
      Messages (actx st) @ [NewToolResultMessage (ID tc) result]"
    using exec_tool_call_messages by blast
  obtain rs where rs: "Messages (actx (exec_tools env tcs (exec_tool_call env tc st))) =
      Messages (actx (exec_tool_call env tc st)) @ rs" "length rs = length tcs"
      "results_for tcs rs"
    using Cons.IH by blast
  show ?case
    by (rule exI[of _ "NewToolResultMessage (ID tc) result # rs"])
      (simp add: r rs NewToolResultMessage_def)
qed

lemma results_for_length: "results_for tcs ms \<Longrightarrow> length tcs \<le> length ms"
  by (induction tcs ms rule: results_for.induct) auto

lemma results_for_append: "results_for tcs ms \<Longrightarrow> results_for tcs (ms @ extra)"
  by (induction tcs ms rule: results_for.induct) auto

lemma complete_turns_append:
  "complete_turns a \<Longrightarrow> complete_turns b \<Longrightarrow> complete_turns (a @ b)"
proof (induction a rule: complete_turns.induct)
  case 1
  then show ?case by simp
next
  case (2 m ms)
  then have "length (ToolCalls m) \<le> length ms" using results_for_length by auto
  then show ?case using 2 by (simp add: results_for_append)
qed

lemma complete_turns_single:
  assumes "tcs \<noteq> []" "length rs = length tcs" "results_for tcs rs"
  shows "complete_turns (NewAssistantToolCallMessage tcs # rs)"
  using assms by (simp add: NewAssistantToolCallMessage_def)

lemma Run_step_limit:
  "limit_reached env st \<Longrightarrow>
   Run_step env st = Inl (Inl (ErrMaxIterations (MaxIterations (aconfig env))), st)"
  by (simp add: Run_step_def)

text \<open>
  An iteration in which the model asks for tool calls continues the loop, whatever the
  tools return: the counter and the number of requests go up by one, and the history
  grows by one complete turn.
\<close>

lemma Run_step_tool_calls:
  assumes "\<not> limit_reached env st" "ctx_Err env (world st) = None"
    and "Complete env
           (build_request env ((actx st)\<lparr>IterationCount := IterationCount (actx st) + 1\<rparr>))
           (world st) = (Inr resp, w')"
    and "RespToolCalls resp \<noteq> []"
  shows "\<exists>st' rs. Run_step env st = Inr st' \<and>
           IterationCount (actx st') = IterationCount (actx st) + 1 \<and>
           requests st' = requests st + 1 \<and>
           Messages (actx st') =
             Messages (actx st) @ NewAssistantToolCallMessage (RespToolCalls resp) # rs \<and>
           length rs = length (RespToolCalls resp) \<and>
           results_for (RespToolCalls resp) rs"
proof -
  let ?st3 = "st\<lparr>world := w', requests := Suc (requests st),
      actx := AddMessage (NewAssistantToolCallMessage (RespToolCalls resp))
        (UpdateUsage (RespUsage resp)
           ((actx st)\<lparr>IterationCount := IterationCount (actx st) + 1\<rparr>))\<rparr>"
  have step: "Run_step env st = Inr (exec_tools env (RespToolCalls resp) ?st3)"
    using assms by (simp add: Run_step_def Let_def)
  obtain rs where rs: "Messages (actx (exec_tools env (RespToolCalls resp) ?st3)) =
      Messages (actx ?st3) @ rs" "length rs = length (RespToolCalls resp)"
      "results_for (RespToolCalls resp) rs"
    using exec_tools_messages by blast
  show ?thesis
    apply (rule exI[of _ "exec_tools env (RespToolCalls resp) ?st3"])
    apply (rule exI[of _ rs])
    using step rs
    by (simp add: exec_tools_frame AddMessage_def UpdateUsage_def)
qed

lemma Run_loop_hits_limit:
  assumes M: "MaxIterations (aconfig env) = M" "0 < M"
    and prov: "\<forall>req w. \<exists>resp w'. Complete env req w = (Inr resp, w') \<and> RespToolCalls resp \<noteq> []"
    and live: "\<forall>w. ctx_Err env w = None"
  shows "\<exists>st' turns. Run_loop env st = Some (Inl (ErrMaxIterations M), st') \<and>
           requests st' = requests st + nat (M - IterationCount (actx st)) \<and>
           IterationCount (actx st') = max (IterationCount (actx st)) M \<and>
           Messages (actx st') = Messages (actx st) @ turns \<and> complete_turns turns"
proof (induction "nat (M - IterationCount (actx st))" arbitrary: st)
  case 0
  then have "limit_reached env st" using M by (simp add: limit_reached_def)
  then have "Run_loop env st = Some (Inl (ErrMaxIterations M), st)"
    using M by (subst Run_loop.simps) (simp add: Run_step_limit)
  moreover have "max (IterationCount (actx st)) M = IterationCount (actx st)"
    using 0 by simp
  ultimately show ?case using 0 by (intro exI[of _ st] exI[of _ "[]"]) simp
next
  case (Suc n)
  then have lt: "IterationCount (actx st) < M" by simp
  then have nl: "\<not> limit_reached env st" using M by (simp add: limit_reached_def)
  obtain resp w' where c: "Complete env
      (build_request env ((actx st)\<lparr>IterationCount := IterationCount (actx st) + 1\<rparr>))
      (world st) = (Inr resp, w')" "RespToolCalls resp \<noteq> []"
    using prov by blast
  from Run_step_tool_calls[OF nl live[rule_format] c]
  obtain st1 rs where st1: "Run_step env st = Inr st1"
    "IterationCount (actx st1) = IterationCount (actx st) + 1"
    "requests st1 = requests st + 1"
    "Messages (actx st1) =
       Messages (actx st) @ NewAssistantToolCallMessage (RespToolCalls resp) # rs"
    "length rs = length (RespToolCalls resp)" "results_for (RespToolCalls resp) rs"
    by blast
  have n: "n = nat (M - IterationCount (actx st1))" using Suc(2) st1(2) by simp
  from Suc(1)[OF n]
  obtain st' turns where st': "Run_loop env st1 = Some (Inl (ErrMaxIterations M), st')"
    "requests st' = requests st1 + nat (M - IterationCount (actx st1))"
    "IterationCount (actx st') = max (IterationCount (actx st1)) M"
    "Messages (actx st') = Messages (actx st1) @ turns" "complete_turns turns"
    by blast
  have loop: "Run_loop env st = Run_loop env st1"
    by (subst Run_loop.simps) (simp add: st1(1))
  have turn: "complete_turns (NewAssistantToolCallMessage (RespToolCalls resp) # rs)"
    using complete_turns_single[OF c(2) st1(5) st1(6)] .
  show ?case
    apply (rule exI[of _ st'])
    apply (rule exI[of _ "(NewAssistantToolCallMessage (RespToolCalls resp) # rs) @ turns"])
    using loop st' st1 lt Suc(2) complete_turns_append[OF turn st'(5)]
    by (simp del: complete_turns.simps)
qed

lemma Run_hits_limit:
  assumes M: "MaxIterations (aconfig env) = M" "0 < M"
    and prov: "\<forall>req w. \<exists>resp w'. Complete env req w = (Inr resp, w') \<and> RespToolCalls resp \<noteq> []"
    and live: "\<forall>w. ctx_Err env w = None"
  shows "\<exists>st' turns. Run env userMessage st = Some (Inl (ErrMaxIterations M), st') \<and>
           requests st' = requests st + nat (M - IterationCount (actx st)) \<and>
           IterationCount (actx st') = max (IterationCount (actx st)) M \<and>
           Messages (actx st') = Messages (actx st) @ NewUserMessage userMessage # turns \<and>
           complete_turns turns"
  using Run_loop_hits_limit[OF assms, of "st\<lparr>actx := AddUserMessage userMessage (actx st)\<rparr>"]
  by (simp add: Run_def AddUserMessage_def AddMessage_def)

text \<open>
  C2, as the code has it. The iteration counter lives in the conversation context and
  \<open>Run\<close> does not reset it. With a ceiling \<open>M > 0\<close>, a model that always answers with
  tool calls and no cancellation, \<open>Run\<close> returns the max-iterations error after
  \<open>M - k\<close> completion requests, where \<open>k\<close> is the counter at the call (none if
  \<open>k \<ge> M\<close>), so after exactly \<open>M\<close> requests when the counter is zero. The limit is
  tested at the top of an iteration, where it returns before any request is issued;
  the history at the abort consists of the user message and complete turns, every tool
  call answered.
\<close>

theorem C2_iteration_limit:
  assumes "MaxIterations (aconfig env) = M" "0 < M"
    and "\<forall>req w. \<exists>resp w'. Complete env req w = (Inr resp, w') \<and> RespToolCalls resp \<noteq> []"
    and "\<forall>w. ctx_Err env w = None"
  shows "(\<exists>st' turns. Run env userMessage st = Some (Inl (ErrMaxIterations M), st') \<and>
            requests st' = requests st + nat (M - IterationCount (actx st)) \<and>
            (IterationCount (actx st) = 0 \<longrightarrow> requests st' = requests st + nat M) \<and>
            Messages (actx st') = Messages (actx st) @ NewUserMessage userMessage # turns \<and>
            complete_turns turns) \<and>
         (\<forall>s :: ('v, 'w) agent_state. limit_reached env s \<longrightarrow>
            Run_step env s = Inl (Inl (ErrMaxIterations M), s))"
proof -
  from Run_hits_limit[OF assms, of userMessage st]
  obtain st' turns where r: "Run env userMessage st = Some (Inl (ErrMaxIterations M), st')"
    "requests st' = requests st + nat (M - IterationCount (actx st))"
    "Messages (actx st') = Messages (actx st) @ NewUserMessage userMessage # turns"
    "complete_turns turns"
    by blast
  have "\<exists>st' turns. Run env userMessage st = Some (Inl (ErrMaxIterations M), st') \<and>
            requests st' = requests st + nat (M - IterationCount (actx st)) \<and>
            (IterationCount (actx st) = 0 \<longrightarrow> requests st' = requests st + nat M) \<and>
            Messages (actx st') = Messages (actx st) @ NewUserMessage userMessage # turns \<and>
            complete_turns turns"
    apply (rule exI[of _ st'])
    apply (rule exI[of _ turns])
    using r by simp
  moreover have "\<forall>s :: ('v, 'w) agent_state. limit_reached env s \<longrightarrow>
            Run_step env s = Inl (Inl (ErrMaxIterations M), s)"
    using Run_step_limit assms(1) by metis
  ultimately show ?thesis by blast
qed

lemma looping_env_facts:
  "MaxIterations (aconfig (looping_env m)) = m"
  "\<forall>req w. \<exists>resp w'. Complete (looping_env m) req w = (Inr resp, w') \<and> RespToolCalls resp \<noteq> []"
  "\<forall>w. ctx_Err (looping_env m) w = None"
  by (simp_all add: looping_env_def looping_response_def)

theorem C2_iteration_limit_witness:
  "\<exists>st'. Run (looping_env 3) ''go'' fresh_state = Some (Inl (ErrMaxIterations 3), st') \<and>
         requests st' = 3"
proof -
  have "IterationCount (actx fresh_state) = 0" "requests fresh_state = 0"
    by (simp_all add: fresh_state_def NewContext_def)
  then show ?thesis
    using C2_iteration_limit[OF looping_env_facts(1) _ looping_env_facts(2,3),
        of 3 "''go''" fresh_state]
    by auto
qed

text \<open>
  The claim as stated fails for an agent that has run before: after a first run that
  ended at the ceiling of 3, a second run on the same agent returns the error at once,
  having issued no completion request at all.
\<close>

theorem C2_second_run_counterexample:
  "\<exists>st1 st2.
     Run (looping_env 3) ''go'' fresh_state = Some (Inl (ErrMaxIterations 3), st1) \<and>
     Run (looping_env 3) ''again'' st1 = Some (Inl (ErrMaxIterations 3), st2) \<and>
     requests st2 = requests st1"
proof -
  have f: "IterationCount (actx fresh_state) = 0"
    by (simp add: fresh_state_def NewContext_def)
  from Run_hits_limit[OF looping_env_facts(1) _ looping_env_facts(2,3), of 3 "''go''" fresh_state]
  obtain st1 where st1:
    "Run (looping_env 3) ''go'' fresh_state = Some (Inl (ErrMaxIterations 3), st1)"
    "IterationCount (actx st1) = max (IterationCount (actx fresh_state)) 3"
    by auto
  from Run_hits_limit[OF looping_env_facts(1) _ looping_env_facts(2,3), of 3 "''again''" st1]
  obtain st2 where st2:
    "Run (looping_env 3) ''again'' st1 = Some (Inl (ErrMaxIterations 3), st2)"
    "requests st2 = requests st1 + nat (3 - IterationCount (actx st1))"
    by auto
  show ?thesis
    using st1 st2 f by (intro exI[of _ st1] exI[of _ st2]) simp
qed

text \<open>
  The streaming loop has the same guard at the top of its iteration: with a provider
  whose every response ends in tool calls, \<open>RunStream\<close> stops at the ceiling like
  \<open>Run\<close>.
\<close>

lemma RunStream_step_limit:
  "limit_reached env st \<Longrightarrow>
   RunStream_step env stream st =
     Inl (Inl (ErrMaxIterations (MaxIterations (aconfig env))), st)"
  by (simp add: RunStream_step_def)

lemma RunStream_step_tool_calls:
  assumes "\<not> limit_reached env st" "ctx_Err env (world st) = None"
    and "stream
           (build_request env ((actx st)\<lparr>IterationCount := IterationCount (actx st) + 1\<rparr>))
           (world st) = (Inr evs, w')"
    and "consume evs acc_init = Inr acc" "calls acc \<noteq> []"
  shows "\<exists>st' rs. RunStream_step env stream st = Inr st' \<and>
           IterationCount (actx st') = IterationCount (actx st) + 1 \<and>
           requests st' = requests st + 1 \<and>
           Messages (actx st') =
             Messages (actx st) @ NewAssistantToolCallMessage (calls acc) # rs \<and>
           length rs = length (calls acc) \<and>
           results_for (calls acc) rs"
proof -
  let ?st3 = "st\<lparr>world := w', requests := Suc (requests st),
      actx := AddMessage (NewAssistantToolCallMessage (calls acc))
        (UpdateUsage (usage acc)
           ((actx st)\<lparr>IterationCount := IterationCount (actx st) + 1\<rparr>))\<rparr>"
  have step: "RunStream_step env stream st = Inr (exec_tools env (calls acc) ?st3)"
    using assms by (simp add: RunStream_step_def Let_def)
  obtain rs where rs: "Messages (actx (exec_tools env (calls acc) ?st3)) =
      Messages (actx ?st3) @ rs" "length rs = length (calls acc)"
      "results_for (calls acc) rs"
    using exec_tools_messages by blast
  show ?thesis
    apply (rule exI[of _ "exec_tools env (calls acc) ?st3"])
    apply (rule exI[of _ rs])
    using step rs
    by (simp add: exec_tools_frame AddMessage_def UpdateUsage_def)
qed

lemma RunStream_loop_hits_limit:
  assumes M: "MaxIterations (aconfig env) = M" "0 < M"
    and prov: "\<forall>req w. \<exists>evs w' acc. stream req w = (Inr evs, w') \<and>
                 consume evs acc_init = Inr acc \<and> calls acc \<noteq> []"
    and live: "\<forall>w. ctx_Err env w = None"
  shows "\<exists>st' turns. RunStream_loop env stream st = Some (Inl (ErrMaxIterations M), st') \<and>
           requests st' = requests st + nat (M - IterationCount (actx st)) \<and>
           IterationCount (actx st') = max (IterationCount (actx st)) M \<and>
           Messages (actx st') = Messages (actx st) @ turns \<and> complete_turns turns"
proof (induction "nat (M - IterationCount (actx st))" arbitrary: st)
  case 0
  then have "limit_reached env st" using M by (simp add: limit_reached_def)
  then have "RunStream_loop env stream st = Some (Inl (ErrMaxIterations M), st)"
    using M by (subst RunStream_loop.simps) (simp add: RunStream_step_limit)
  moreover have "max (IterationCount (actx st)) M = IterationCount (actx st)"
    using 0 by simp
  ultimately show ?case using 0 by (intro exI[of _ st] exI[of _ "[]"]) simp
next
  case (Suc n)
  then have lt: "IterationCount (actx st) < M" by simp
  then have nl: "\<not> limit_reached env st" using M by (simp add: limit_reached_def)
  obtain evs w' acc where c: "stream
      (build_request env ((actx st)\<lparr>IterationCount := IterationCount (actx st) + 1\<rparr>))
      (world st) = (Inr evs, w')" "consume evs acc_init = Inr acc" "calls acc \<noteq> []"
    using prov by blast
  from RunStream_step_tool_calls[of env st stream evs w' acc, OF nl live[rule_format] c]
  obtain st1 rs where st1: "RunStream_step env stream st = Inr st1"
    "IterationCount (actx st1) = IterationCount (actx st) + 1"
    "requests st1 = requests st + 1"
    "Messages (actx st1) = Messages (actx st) @ NewAssistantToolCallMessage (calls acc) # rs"
    "length rs = length (calls acc)" "results_for (calls acc) rs"
    by blast
  have n: "n = nat (M - IterationCount (actx st1))" using Suc(2) st1(2) by simp
  from Suc(1)[OF n]
  obtain st' turns where st':
    "RunStream_loop env stream st1 = Some (Inl (ErrMaxIterations M), st')"
    "requests st' = requests st1 + nat (M - IterationCount (actx st1))"
    "IterationCount (actx st') = max (IterationCount (actx st1)) M"
    "Messages (actx st') = Messages (actx st1) @ turns" "complete_turns turns"
    by blast
  have loop: "RunStream_loop env stream st = RunStream_loop env stream st1"
    by (subst RunStream_loop.simps) (simp add: st1(1))
  have turn: "complete_turns (NewAssistantToolCallMessage (calls acc) # rs)"
    using complete_turns_single[OF c(3) st1(5) st1(6)] .
  show ?case
    apply (rule exI[of _ st'])
    apply (rule exI[of _ "(NewAssistantToolCallMessage (calls acc) # rs) @ turns"])
    using loop st' st1 lt Suc(2) complete_turns_append[OF turn st'(5)]
    by (simp del: complete_turns.simps)
qed

lemma RunStream_hits_limit:
  assumes M: "MaxIterations (aconfig env) = M" "0 < M"
    and prov: "\<forall>req w. \<exists>evs w' acc. stream req w = (Inr evs, w') \<and>
                 consume evs acc_init = Inr acc \<and> calls acc \<noteq> []"
    and live: "\<forall>w. ctx_Err env w = None"
  shows "\<exists>st' turns. RunStream env (Some stream) userMessage st =
             Some (Inl (ErrMaxIterations M), st') \<and>
           requests st' = requests st + nat (M - IterationCount (actx st)) \<and>
           Messages (actx st') = Messages (actx st) @ NewUserMessage userMessage # turns \<and>
           complete_turns turns"
proof -
  from RunStream_loop_hits_limit[OF assms,
      of "st\<lparr>actx := AddUserMessage userMessage (actx st)\<rparr>"]
  show ?thesis
    by (auto simp: RunStream_def AddUserMessage_def AddMessage_def)
qed

lemma exec_tools_nth_result:
  assumes "fst (executeTool env tc (world (exec_tools env pre st))) = Inl err"
  shows "Messages (actx (exec_tools env (pre @ tc # post) st)) !
           (length (Messages (actx st)) + length pre) =
         NewToolResultMessage (ID tc) (''Error: '' @ err)"
proof -
  let ?s1 = "exec_tools env pre st"
  obtain rs where rs: "Messages (actx ?s1) = Messages (actx st) @ rs" "length rs = length pre"
    using exec_tools_messages by blast
  obtain result where r: "Messages (actx (exec_tool_call env tc ?s1)) =
      Messages (actx ?s1) @ [NewToolResultMessage (ID tc) result]"
    "result = ''Error: '' @ err"
    using exec_tool_call_messages[of env tc ?s1] assms by blast
  obtain ps where ps: "Messages (actx (exec_tools env post (exec_tool_call env tc ?s1))) =
      Messages (actx (exec_tool_call env tc ?s1)) @ ps"
    using exec_tools_messages by blast
  have "Messages (actx (exec_tools env (pre @ tc # post) st)) =
      (Messages (actx st) @ rs) @ NewToolResultMessage (ID tc) (''Error: '' @ err) # ps"
    by (simp add: exec_tools_append ps r rs)
  then show ?thesis
    using rs(2) by (metis length_append nth_append_length)
qed

lemma exec_tools_world: "world (exec_tools env tcs st) = tools_world env tcs (world st)"
  by (induction tcs arbitrary: st) (simp_all add: exec_tool_call_def split_beta Let_def)

lemma Run_step_tool_state:
  assumes "\<not> limit_reached env st" "ctx_Err env (world st) = None"
    and "Complete env
           (build_request env ((actx st)\<lparr>IterationCount := IterationCount (actx st) + 1\<rparr>))
           (world st) = (Inr resp, w1)"
    and "RespToolCalls resp \<noteq> []"
  shows "\<exists>st3. Run_step env st = Inr (exec_tools env (RespToolCalls resp) st3) \<and>
           world st3 = w1 \<and> requests st3 = requests st + 1 \<and>
           Messages (actx st3) =
             Messages (actx st) @ [NewAssistantToolCallMessage (RespToolCalls resp)]"
proof -
  let ?st3 = "st\<lparr>world := w1, requests := Suc (requests st),
      actx := AddMessage (NewAssistantToolCallMessage (RespToolCalls resp))
        (UpdateUsage (RespUsage resp)
           ((actx st)\<lparr>IterationCount := IterationCount (actx st) + 1\<rparr>))\<rparr>"
  have "Run_step env st = Inr (exec_tools env (RespToolCalls resp) ?st3)"
    using assms by (simp add: Run_step_def Let_def)
  then show ?thesis
    by (intro exI[of _ ?st3]) (simp add: AddMessage_def UpdateUsage_def)
qed


text \<open>
  C3, as the code has it. A call of an unknown tool, a call whose arguments do not
  parse and a call whose tool returns an error all make \<open>executeTool\<close> return an
  error text. Take an iteration in which the model answers with tool calls, \<open>tc\<close>
  among them, after the calls \<open>pre\<close> and before the calls \<open>post\<close>. The iteration does
  not return: the loop continues with a state \<open>st'\<close> whose history is the history
  before, then the assistant message with the calls, then one message per call. If
  \<open>executeTool\<close> fails for \<open>tc\<close> with \<open>err\<close>, in the world the calls before it
  have left, the message at the place of \<open>tc\<close> is the tool result with the id of
  \<open>tc\<close> and the content \<open>Error: err\<close>. The request of the next iteration carries
  this history, and that iteration issues it unless the iteration limit is reached or
  the context is done.
\<close>

theorem C3_tool_errors_feed_back:
  "(registry_Get env (Name tc) = None \<longrightarrow>
      fst (executeTool env tc w) = Inl (''unknown tool: '' @ Name tc)) \<and>
   (\<forall>tool e. registry_Get env (Name tc) = Some tool \<and>
        Unmarshal env (Arguments tc) = Inl e \<longrightarrow>
      fst (executeTool env tc w) = Inl (''invalid arguments: '' @ e)) \<and>
   (\<forall>tool args e w'. registry_Get env (Name tc) = Some tool \<and>
        Unmarshal env (Arguments tc) = Inr args \<and> tool args w = (Inl e, w') \<longrightarrow>
      fst (executeTool env tc w) = Inl e) \<and>
   (\<forall>resp w1 pre post. \<not> limit_reached env st \<and> ctx_Err env (world st) = None \<and>
        Complete env
          (build_request env ((actx st)\<lparr>IterationCount := IterationCount (actx st) + 1\<rparr>))
          (world st) = (Inr resp, w1) \<and>
        RespToolCalls resp = pre @ tc # post \<longrightarrow>
      (\<exists>st'. Run_step env st = Inr st' \<and> Run_loop env st = Run_loop env st' \<and>
         requests st' = requests st + 1 \<and>
         length (Messages (actx st')) =
           length (Messages (actx st)) + 1 + length (RespToolCalls resp) \<and>
         take (length (Messages (actx st))) (Messages (actx st')) = Messages (actx st) \<and>
         Messages (actx st') ! length (Messages (actx st)) =
           NewAssistantToolCallMessage (RespToolCalls resp) \<and>
         (\<forall>err. fst (executeTool env tc (tools_world env pre w1)) = Inl err \<longrightarrow>
            Messages (actx st') ! (length (Messages (actx st)) + 1 + length pre) =
              NewToolResultMessage (ID tc) (''Error: '' @ err)) \<and>
         ReqMessages (build_request env
            ((actx st')\<lparr>IterationCount := IterationCount (actx st') + 1\<rparr>)) =
           Messages (actx st') \<and>
         (\<not> limit_reached env st' \<and> ctx_Err env (world st') = None \<longrightarrow>
            requests (state_after (Run_step env st')) = requests st + 2)))"
proof (intro conjI allI impI)
  assume "registry_Get env (Name tc) = None"
  then show "fst (executeTool env tc w) = Inl (''unknown tool: '' @ Name tc)"
    by (simp add: executeTool_def)
next
  fix tool e
  assume "registry_Get env (Name tc) = Some tool \<and> Unmarshal env (Arguments tc) = Inl e"
  then show "fst (executeTool env tc w) = Inl (''invalid arguments: '' @ e)"
    by (simp add: executeTool_def)
next
  fix tool args e w'
  assume "registry_Get env (Name tc) = Some tool \<and>
        Unmarshal env (Arguments tc) = Inr args \<and> tool args w = (Inl e, w')"
  then show "fst (executeTool env tc w) = Inl e"
    by (simp add: executeTool_def)
next
  fix resp w1 pre post
  assume a: "\<not> limit_reached env st \<and> ctx_Err env (world st) = None \<and>
        Complete env
          (build_request env ((actx st)\<lparr>IterationCount := IterationCount (actx st) + 1\<rparr>))
          (world st) = (Inr resp, w1) \<and>
        RespToolCalls resp = pre @ tc # post"
  let ?tcs = "RespToolCalls resp"
  let ?n = "length (Messages (actx st))"
  from a have ne: "?tcs \<noteq> []" by simp
  from a have a': "\<not> limit_reached env st" "ctx_Err env (world st) = None"
    "Complete env
       (build_request env ((actx st)\<lparr>IterationCount := IterationCount (actx st) + 1\<rparr>))
       (world st) = (Inr resp, w1)"
    by simp_all
  from Run_step_tool_state[OF a' ne]
  obtain st3 where st3: "Run_step env st = Inr (exec_tools env ?tcs st3)"
    "world st3 = w1" "requests st3 = requests st + 1"
    "Messages (actx st3) = Messages (actx st) @ [NewAssistantToolCallMessage ?tcs]"
    by (elim exE conjE)
  let ?st' = "exec_tools env ?tcs st3"
  obtain rs where rs: "Messages (actx ?st') = Messages (actx st3) @ rs"
    "length rs = length ?tcs"
    using exec_tools_messages[of env ?tcs st3] by blast
  have msgs: "Messages (actx ?st') =
      Messages (actx st) @ NewAssistantToolCallMessage ?tcs # rs"
    using rs(1) st3(4) by simp
  have loop: "Run_loop env st = Run_loop env ?st'"
    by (subst Run_loop.simps) (simp add: st3(1))
  have req: "requests ?st' = requests st + 1"
    using st3(3) by (simp add: exec_tools_frame)
  have len: "length (Messages (actx ?st')) = ?n + 1 + length ?tcs"
    using msgs rs(2) by simp
  have keep: "take ?n (Messages (actx ?st')) = Messages (actx st)"
    using msgs by simp
  have asst: "Messages (actx ?st') ! ?n = NewAssistantToolCallMessage ?tcs"
    using msgs by (simp add: nth_append)
  have fed: "Messages (actx ?st') ! (?n + 1 + length pre) =
      NewToolResultMessage (ID tc) (''Error: '' @ err)"
    if "fst (executeTool env tc (tools_world env pre w1)) = Inl err" for err
  proof -
    have "fst (executeTool env tc (world (exec_tools env pre st3))) = Inl err"
      using that st3(2) by (simp add: exec_tools_world)
    from exec_tools_nth_result[OF this, of post]
    show ?thesis using a st3(4) by simp
  qed
  have hist: "ReqMessages (build_request env
            ((actx ?st')\<lparr>IterationCount := IterationCount (actx ?st') + 1\<rparr>)) =
           Messages (actx ?st')"
    by (simp add: build_request_def)
  have next_request: "requests (state_after (Run_step env ?st')) = requests st + 2"
    if "\<not> limit_reached env ?st' \<and> ctx_Err env (world ?st') = None"
    using that req
    by (auto simp: Run_step_def state_after_def Let_def exec_tools_frame
        split: prod.splits sum.splits)
  show "\<exists>st'. Run_step env st = Inr st' \<and> Run_loop env st = Run_loop env st' \<and>
         requests st' = requests st + 1 \<and>
         length (Messages (actx st')) =
           length (Messages (actx st)) + 1 + length (RespToolCalls resp) \<and>
         take (length (Messages (actx st))) (Messages (actx st')) = Messages (actx st) \<and>
         Messages (actx st') ! length (Messages (actx st)) =
           NewAssistantToolCallMessage (RespToolCalls resp) \<and>
         (\<forall>err. fst (executeTool env tc (tools_world env pre w1)) = Inl err \<longrightarrow>
            Messages (actx st') ! (length (Messages (actx st)) + 1 + length pre) =
              NewToolResultMessage (ID tc) (''Error: '' @ err)) \<and>
         ReqMessages (build_request env
            ((actx st')\<lparr>IterationCount := IterationCount (actx st') + 1\<rparr>)) =
           Messages (actx st') \<and>
         (\<not> limit_reached env st' \<and> ctx_Err env (world st') = None \<longrightarrow>
            requests (state_after (Run_step env st')) = requests st + 2)"
    apply (rule exI[of _ ?st'])
    using st3(1) loop req len keep asst fed hist next_request by blast
qed

text \<open>
  One response with three failing calls, an unknown tool, arguments that do not parse
  and a tool that returns an error: the three error texts are in the history the loop
  continues with, each under the id of its call, and the next iteration asks the model
  again.
\<close>

theorem C3_tool_errors_feed_back_witness:
  "(\<exists>st'. Run_step three_errors_env fresh_state = Inr st' \<and>
      requests st' = 1 \<and>
      length (Messages (actx st')) = 4 \<and>
      Messages (actx st') ! 0 = NewAssistantToolCallMessage three_calls \<and>
      Messages (actx st') ! 1 = NewToolResultMessage ''call_1'' ''Error: unknown tool: nope'' \<and>
      Messages (actx st') ! 2 =
        NewToolResultMessage ''call_2''
          ''Error: invalid arguments: unexpected end of JSON input'' \<and>
      Messages (actx st') ! 3 = NewToolResultMessage ''call_3'' ''Error: exit status 1'' \<and>
      requests (state_after (Run_step three_errors_env st')) = 2)"
proof -
  let ?env = "three_errors_env"
  let ?t1 = "\<lparr>ID = ''call_1'', Name = ''nope'', Arguments = ''{}''\<rparr>"
  let ?t2 = "\<lparr>ID = ''call_2'', Name = ''boom'', Arguments = ''{''\<rparr>"
  let ?t3 = "\<lparr>ID = ''call_3'', Name = ''boom'', Arguments = ''{}''\<rparr>"
  let ?resp = "looping_response\<lparr>RespToolCalls := three_calls\<rparr>"
  let ?boom = "\<lambda>(args :: string) (w :: unit). (Inl ''exit status 1'' :: string + string, w)"
  have reg: "registry_Get ?env ''nope'' = None" "registry_Get ?env ''boom'' = Some ?boom"
    "Unmarshal ?env ''{'' = Inl ''unexpected end of JSON input''"
    "Unmarshal ?env ''{}'' = Inr ''{}''"
    by (simp_all add: three_errors_env_def failing_env_def looping_env_def)
  have fresh: "Messages (actx fresh_state) = []" "world fresh_state = ()"
    "requests fresh_state = 0" "IterationCount (actx fresh_state) = 0"
    by (simp_all add: fresh_state_def NewContext_def)
  have pre: "\<not> limit_reached ?env fresh_state" "ctx_Err ?env (world fresh_state) = None"
    "Complete ?env (build_request ?env
        ((actx fresh_state)\<lparr>IterationCount := IterationCount (actx fresh_state) + 1\<rparr>))
        (world fresh_state) = (Inr ?resp, ())"
    by (simp_all add: limit_reached_def three_errors_env_def failing_env_def looping_env_def
        fresh)
  have calls: "RespToolCalls ?resp = [] @ ?t1 # [?t2, ?t3]"
    "RespToolCalls ?resp = [?t1] @ ?t2 # [?t3]"
    "RespToolCalls ?resp = [?t1, ?t2] @ ?t3 # []"
    by (simp_all add: three_calls_def)
  have e1: "fst (executeTool ?env ?t1 w) = Inl ''unknown tool: nope''" for w
    using C3_tool_errors_feed_back[of ?env ?t1 w fresh_state] reg by simp
  have e2: "fst (executeTool ?env ?t2 w) =
      Inl ''invalid arguments: unexpected end of JSON input''" for w
    using C3_tool_errors_feed_back[of ?env ?t2 w fresh_state] reg by simp
  have e3: "fst (executeTool ?env ?t3 w) = Inl ''exit status 1''" for w
    using C3_tool_errors_feed_back[of ?env ?t3 w fresh_state] reg by simp
  from C3_tool_errors_feed_back[of ?env ?t1 "()" fresh_state] pre calls(1)
  obtain st' where st': "Run_step ?env fresh_state = Inr st'"
    "requests st' = requests fresh_state + 1"
    "length (Messages (actx st')) =
       length (Messages (actx fresh_state)) + 1 + length (RespToolCalls ?resp)"
    "Messages (actx st') ! length (Messages (actx fresh_state)) =
       NewAssistantToolCallMessage (RespToolCalls ?resp)"
    "\<forall>err. fst (executeTool ?env ?t1 (tools_world ?env [] ())) = Inl err \<longrightarrow>
       Messages (actx st') ! (length (Messages (actx fresh_state)) + 1 + length ([] :: ToolCall list)) =
         NewToolResultMessage (ID ?t1) (''Error: '' @ err)"
    "\<not> limit_reached ?env st' \<and> ctx_Err ?env (world st') = None \<longrightarrow>
       requests (state_after (Run_step ?env st')) = requests fresh_state + 2"
    by blast
  from C3_tool_errors_feed_back[of ?env ?t2 "()" fresh_state] pre calls(2)
  obtain st2 where st2: "Run_step ?env fresh_state = Inr st2"
    "\<forall>err. fst (executeTool ?env ?t2 (tools_world ?env [?t1] ())) = Inl err \<longrightarrow>
       Messages (actx st2) ! (length (Messages (actx fresh_state)) + 1 + length [?t1]) =
         NewToolResultMessage (ID ?t2) (''Error: '' @ err)"
    by blast
  from C3_tool_errors_feed_back[of ?env ?t3 "()" fresh_state] pre calls(3)
  obtain st3 where st3: "Run_step ?env fresh_state = Inr st3"
    "\<forall>err. fst (executeTool ?env ?t3 (tools_world ?env [?t1, ?t2] ())) = Inl err \<longrightarrow>
       Messages (actx st3) ! (length (Messages (actx fresh_state)) + 1 + length [?t1, ?t2]) =
         NewToolResultMessage (ID ?t3) (''Error: '' @ err)"
    by blast
  have same: "st2 = st'" "st3 = st'" using st'(1) st2(1) st3(1) by simp_all
  have m1: "Messages (actx st') ! 1 = NewToolResultMessage ''call_1'' ''Error: unknown tool: nope''"
    using st'(5) e1 fresh by simp
  have m2: "Messages (actx st') ! 2 = NewToolResultMessage ''call_2''
          ''Error: invalid arguments: unexpected end of JSON input''"
    using st2(2) e2 fresh same by (simp add: numeral_2_eq_2)
  have m3: "Messages (actx st') ! 3 = NewToolResultMessage ''call_3'' ''Error: exit status 1''"
    using st3(2) e3 fresh same by (simp add: numeral_3_eq_3)
  have "IterationCount (actx st') = 1"
    using Run_step_tool_calls[of ?env fresh_state ?resp "()"] pre st'(1) fresh
    by (auto simp: three_calls_def)
  then have "\<not> limit_reached ?env st' \<and> ctx_Err ?env (world st') = None"
    by (simp add: limit_reached_def three_errors_env_def failing_env_def looping_env_def)
  then have nxt: "requests (state_after (Run_step ?env st')) = 2" using st'(6) fresh by simp
  show ?thesis
    using st'(1-4) m1 m2 m3 nxt fresh
    by (intro exI[of _ st']) (simp add: three_calls_def)
qed


text \<open>
  The claim as stated fails at the iteration limit: with a ceiling of 1 the error of the
  unknown tool is appended to the history, and the loop then aborts with the
  max-iterations error; the one completion request of the run is the one that brought
  the tool call.
\<close>

theorem C3_no_further_request_counterexample:
  "map_option (\<lambda>(res, st). (res, requests st, Messages (actx st)))
     (Run (looping_env 1) ''go'' fresh_state) =
   Some (Inl (ErrMaxIterations 1), 1,
     [NewUserMessage ''go'',
      NewAssistantToolCallMessage [\<lparr>ID = ''call_1'', Name = ''nope'', Arguments = ''{}''\<rparr>],
      NewToolResultMessage ''call_1'' ''Error: unknown tool: nope''])"
  by code_simp


subsection \<open>Streamed tool-call arguments\<close>

lemma args_after_append: "args_after a (xs @ ys) = args_after (args_after a xs) ys"
proof (induction xs arbitrary: a)
  case Nil
  then show ?case by simp
next
  case (Cons e xs)
  then show ?case by (cases e) (simp_all add: fun_upd_def)
qed

lemma ends_tracked_append:
  "ends_tracked a (xs @ ys) = (ends_tracked a xs \<and> ends_tracked (args_after a xs) ys)"
proof (induction xs arbitrary: a)
  case Nil
  then show ?case by simp
next
  case (Cons e xs)
  then show ?case by (cases e) (simp_all add: fun_upd_def)
qed

lemma tracks_init: "tracks stream_init"
  by (simp add: tracks_def stream_init_def)

lemma tracks_send_plain:
  assumes "tracks s"
  shows "tracks (send (StreamEventText t) s)" "tracks (send (StreamEventError e) s)"
    "tracks (send (StreamEventDone u r) s)"
  using assms by (simp_all add: tracks_def send_def ends_tracked_append args_after_append)

lemma tracks_fields:
  "tracks (s\<lparr>inputTokens := n\<rparr>) = tracks s"
  "tracks (s\<lparr>outputTokens := n\<rparr>) = tracks s"
  "tracks (s\<lparr>stopReason := r\<rparr>) = tracks s"
  "tracks (s\<lparr>toolCalls := m\<rparr>) = tracks s"
  "tracks (s\<lparr>toolCallStarted := b\<rparr>) = tracks s"
  by (simp_all add: tracks_def)

lemma tracks_start:
  assumes "tracks s"
  shows "tracks (send (StreamEventToolCallStart tc idx)
           (s\<lparr>toolCallArgs := (toolCallArgs s)(idx := [])\<rparr>))"
  using assms by (simp add: tracks_def send_def ends_tracked_append args_after_append)

lemma tracks_delta:
  assumes "tracks s"
  shows "tracks (send (StreamEventToolCallDelta idx frag)
           (s\<lparr>toolCallArgs := (toolCallArgs s)(idx := toolCallArgs s idx @ frag)\<rparr>))"
  using assms by (simp add: tracks_def send_def ends_tracked_append args_after_append)

lemma tracks_end:
  assumes "tracks s" "Arguments tc = toolCallArgs s idx"
  shows "tracks (send (StreamEventToolCallEnd tc idx) s)"
  using assms by (simp add: tracks_def send_def ends_tracked_append args_after_append)

lemma send_toolCalls_commute:
  "send ev (s\<lparr>toolCalls := m, toolCallArgs := a, toolCallStarted := b\<rparr>) =
   (send ev (s\<lparr>toolCallArgs := a\<rparr>))\<lparr>toolCalls := m, toolCallStarted := b\<rparr>"
  "send ev (s\<lparr>toolCalls := m, toolCallArgs := a\<rparr>) =
   (send ev (s\<lparr>toolCallArgs := a\<rparr>))\<lparr>toolCalls := m\<rparr>"
  "send ev (s\<lparr>toolCalls := m\<rparr>) = (send ev s)\<lparr>toolCalls := m\<rparr>"
  by (simp_all add: send_def)

lemma tracks_openai_tool_delta: "tracks s \<Longrightarrow> tracks (openai_tool_delta d s)"
proof -
  assume t: "tracks s"
  let ?idx = "TcIndex d"
  define s1 where "s1 =
     (if TcID d \<noteq> [] \<or> FunctionName d \<noteq> [] then
        (if \<not> toolCallStarted s ?idx then
           let tc = \<lparr>ID = TcID d, Name = FunctionName d, Arguments = []\<rparr>
           in send (StreamEventToolCallStart tc ?idx)
                (s\<lparr>toolCalls := (toolCalls s)(?idx \<mapsto> tc),
                   toolCallArgs := (toolCallArgs s)(?idx := []),
                   toolCallStarted := (toolCallStarted s)(?idx := True)\<rparr>)
         else
           (case toolCalls s ?idx of
              None \<Rightarrow> s
            | Some tc \<Rightarrow>
                let tc1 = (if TcID d \<noteq> [] then tc\<lparr>ID := TcID d\<rparr> else tc);
                    tc2 = (if FunctionName d \<noteq> [] then tc1\<lparr>Name := FunctionName d\<rparr> else tc1)
                in s\<lparr>toolCalls := (toolCalls s)(?idx \<mapsto> tc2)\<rparr>))
      else s)"
  have s1: "tracks s1"
    unfolding s1_def using t tracks_start[OF t]
    by (auto simp: Let_def send_toolCalls_commute tracks_fields split: option.splits)
  have "openai_tool_delta d s =
      (if FunctionArguments d \<noteq> [] then
         send (StreamEventToolCallDelta ?idx (FunctionArguments d))
           (s1\<lparr>toolCallArgs :=
                 (toolCallArgs s1)(?idx := toolCallArgs s1 ?idx @ FunctionArguments d)\<rparr>)
       else s1)"
    unfolding openai_tool_delta_def s1_def Let_def by simp
  then show ?thesis using s1 tracks_delta[OF s1] by simp
qed

lemma tracks_fold_deltas: "tracks s \<Longrightarrow> tracks (fold openai_tool_delta ds s)"
  by (induction ds arbitrary: s) (simp_all add: tracks_openai_tool_delta)

lemma tracks_openai_chunk: "tracks s \<Longrightarrow> tracks (openai_chunk c s)"
  unfolding openai_chunk_def Let_def
  by (auto simp: tracks_fields tracks_send_plain intro!: tracks_fold_deltas
      split: option.splits list.splits)

lemma tracks_openai_loop: "tracks s \<Longrightarrow> tracks (snd (openai_loop input s))"
  by (induction input s rule: openai_loop.induct)
    (simp_all add: tracks_send_plain tracks_openai_chunk)

lemma tracks_finalize: "tracks s \<Longrightarrow> tracks (finalize_calls order s)"
proof (induction order arbitrary: s)
  case Nil
  then show ?case by simp
next
  case (Cons idx order)
  show ?case
  proof (cases "toolCalls s idx")
    case None
    then show ?thesis using Cons by simp
  next
    case (Some tc)
    let ?tc = "tc\<lparr>Arguments := toolCallArgs s idx\<rparr>"
    have "tracks (send (StreamEventToolCallEnd ?tc idx) s)"
      using tracks_end[OF Cons.prems, of ?tc idx] by simp
    then have "tracks (send (StreamEventToolCallEnd ?tc idx)
        (s\<lparr>toolCalls := (toolCalls s)(idx \<mapsto> ?tc)\<rparr>))"
      by (simp add: send_toolCalls_commute tracks_fields)
    then show ?thesis using Some Cons.IH by (simp add: Let_def)
  qed
qed

lemma OpenAI_events_tracked: "ends_tracked (\<lambda>idx. []) (OpenAI_events order input)"
proof -
  obtain b s where l: "openai_loop input stream_init = (b, s)"
    by (cases "openai_loop input stream_init")
  have s: "tracks s" using tracks_openai_loop[OF tracks_init, of input] l by simp
  have "tracks (send (done_event (finalize_calls order s)) (finalize_calls order s))"
    using tracks_finalize[OF s] by (simp add: done_event_def tracks_send_plain)
  then show ?thesis
    using s l by (cases b) (simp_all add: OpenAI_events_def tracks_def Let_def)
qed

lemma tracks_anthropic_event: "tracks s \<Longrightarrow> tracks (snd (anthropic_event e s))"
proof -
  assume t: "tracks s"
  have stop: "tracks (send (StreamEventToolCallEnd (tc\<lparr>Arguments := toolCallArgs s i\<rparr>) i)
      (s\<lparr>toolCalls := (toolCalls s)(i \<mapsto> tc\<lparr>Arguments := toolCallArgs s i\<rparr>)\<rparr>))" for tc i
    using tracks_end[OF t, of "tc\<lparr>Arguments := toolCallArgs s i\<rparr>" i]
    by (simp add: send_toolCalls_commute tracks_fields)
  show ?thesis
    unfolding anthropic_event_def Let_def
    using t tracks_start[OF t] tracks_delta[OF t] stop
    by (auto simp: tracks_fields tracks_send_plain send_toolCalls_commute done_event_def
        split: option.splits)
qed

lemma tracks_anthropic_loop: "tracks s \<Longrightarrow> tracks (snd (anthropic_loop input s))"
proof (induction input s rule: anthropic_loop.induct)
  case (6 event rest s)
  obtain b s' where e: "anthropic_event event s = (b, s')"
    by (cases "anthropic_event event s")
  have "tracks s'" using tracks_anthropic_event[OF 6(2), of event] e by simp
  then show ?case using 6(1) e by (cases b) simp_all
qed (simp_all add: tracks_send_plain)

lemma Anthropic_events_tracked: "ends_tracked (\<lambda>idx. []) (Anthropic_events input)"
proof -
  obtain b s where l: "anthropic_loop input stream_init = (b, s)"
    by (cases "anthropic_loop input stream_init")
  have s: "tracks s" using tracks_anthropic_loop[OF tracks_init, of input] l by simp
  then have "tracks (send (done_event s) s)"
    by (simp add: done_event_def tracks_send_plain)
  then show ?thesis
    using s l by (cases b) (simp_all add: Anthropic_events_def tracks_def)
qed

lemma ended_no_delta:
  "ordered_from started ended evs \<Longrightarrow> idx \<in> set ended \<Longrightarrow> delta_concat idx evs = []"
  by (induction started ended evs rule: ordered_from.induct) auto

lemma ordered_tracked_end:
  assumes "ordered_from started ended evs" "ends_tracked a evs"
    and "\<forall>i. i \<notin> set started \<longrightarrow> a i = []"
    and "StreamEventToolCallEnd tc idx \<in> set evs"
  shows "Arguments tc = a idx @ delta_concat idx evs"
  using assms
proof (induction evs arbitrary: started ended a)
  case Nil
  then show ?case by simp
next
  case (Cons e evs)
  show ?case
  proof (cases e)
    case (StreamEventToolCallStart tc' i)
    then have "a(i := []) = a" using Cons.prems(1,3) by auto
    then show ?thesis
      using Cons.IH[of "i # started" ended a] Cons.prems StreamEventToolCallStart by simp
  next
    case (StreamEventToolCallDelta i frag)
    have "Arguments tc = (a(i := a i @ frag)) idx @ delta_concat idx evs"
      using Cons.prems StreamEventToolCallDelta
      by (intro Cons.IH[of started ended "a(i := a i @ frag)"]) (auto simp: fun_upd_def)
    then show ?thesis using StreamEventToolCallDelta by simp
  next
    case (StreamEventToolCallEnd tc' i)
    show ?thesis
    proof (cases "tc = tc' \<and> idx = i")
      case True
      then have "delta_concat idx evs = []"
        using ended_no_delta[of started "i # ended" evs idx] Cons.prems(1)
          StreamEventToolCallEnd by simp
      then show ?thesis using True Cons.prems(2) StreamEventToolCallEnd by simp
    next
      case False
      then show ?thesis
        using Cons.IH[of started "i # ended" a] Cons.prems StreamEventToolCallEnd by auto
    qed
  next
    case (StreamEventText t)
    then show ?thesis using Cons.IH[of started ended a] Cons.prems by simp
  next
    case (StreamEventDone u r)
    then show ?thesis using Cons.IH[of started ended a] Cons.prems by simp
  next
    case (StreamEventError err)
    then show ?thesis using Cons.IH[of started ended a] Cons.prems by simp
  qed
qed

lemma roundtrip_iff:
  "roundtrip evs =
     (\<forall>tc idx. StreamEventToolCallEnd tc idx \<in> set evs \<longrightarrow>
        Arguments tc = delta_concat idx evs)"
proof
  assume r: "roundtrip evs"
  show "\<forall>tc idx. StreamEventToolCallEnd tc idx \<in> set evs \<longrightarrow>
        Arguments tc = delta_concat idx evs"
  proof (intro allI impI)
    fix tc idx
    assume "StreamEventToolCallEnd tc idx \<in> set evs"
    then have "end_carries evs (StreamEventToolCallEnd tc idx)"
      using r unfolding roundtrip_def list_all_iff by (rule bspec[rotated])
    then show "Arguments tc = delta_concat idx evs" by simp
  qed
next
  assume a: "\<forall>tc idx. StreamEventToolCallEnd tc idx \<in> set evs \<longrightarrow>
        Arguments tc = delta_concat idx evs"
  have "end_carries evs ev" if "ev \<in> set evs" for ev
  proof (cases ev)
    case (StreamEventToolCallEnd tc idx)
    then show ?thesis using that a by simp
  qed simp_all
  then show "roundtrip evs" by (simp add: roundtrip_def list_all_iff)
qed

lemma ordered_tracked_roundtrip:
  assumes "ordered evs" "ends_tracked (\<lambda>idx. []) evs"
  shows "roundtrip evs"
  unfolding roundtrip_iff
  using ordered_tracked_end[OF assms(1)[unfolded ordered_def] assms(2)] by simp

text \<open>
  Where the adapters keep the fragments. For the events either adapter delivers for a
  response: when each index is started at most once and its argument fragments come
  after its \<open>ToolCallStart\<close> and before its \<open>ToolCallEnd\<close>, the arguments of every
  \<open>ToolCallEnd\<close> are the concatenation, in delivery order, of the fragments delivered
  for its index.
\<close>

lemma ordered_roundtrip:
  "ordered (OpenAI_events order input) \<Longrightarrow> roundtrip (OpenAI_events order input)"
  "ordered (Anthropic_events input') \<Longrightarrow> roundtrip (Anthropic_events input')"
  using ordered_tracked_roundtrip OpenAI_events_tracked Anthropic_events_tracked by blast+

lemma ordered_examples:
  "ordered (OpenAI_events [0] openai_stream_ok)"
  "ordered (Anthropic_events anthropic_stream_ok)"
  by code_simp+

lemma roundtrip_examples:
  "roundtrip (OpenAI_events [0] openai_stream_ok)"
  "roundtrip (Anthropic_events anthropic_stream_ok)"
  using ordered_roundtrip ordered_examples by blast+

text \<open>
  C7. The fragments delivered for an index, concatenated, are to equal the arguments of
  its \<open>ToolCallEnd\<close>. The OpenAI adapter loses a fragment when the id and the name of a
  call arrive after its first fragment, which the event model allows (calls are told
  apart by their index because the id may come late). For the stream whose first chunk
  brings the fragment \<open>{"a"\<close> for index 0 and whose second brings the id, the name and
  the fragment \<open>:1}\<close>, the adapter delivers both fragments as \<open>ToolCallDelta\<close> events,
  which concatenate to \<open>{"a":1}\<close>; between them it starts the call and sets the
  accumulated arguments of the index back to the empty string, so the \<open>ToolCallEnd\<close>
  carries \<open>:1}\<close> only, and that is what the streaming loop hands to the tool.
\<close>

theorem C7_late_start_loses_fragment:
  "OpenAI_events [0] openai_stream_late_start =
     [StreamEventToolCallDelta 0 (''{'' @ [CHR 0x22] @ ''a'' @ [CHR 0x22]),
      StreamEventToolCallStart \<lparr>ID = ''call_1'', Name = ''read_file'', Arguments = []\<rparr> 0,
      StreamEventToolCallDelta 0 '':1}'',
      StreamEventToolCallEnd \<lparr>ID = ''call_1'', Name = ''read_file'', Arguments = '':1}''\<rparr> 0,
      StreamEventDone \<lparr>InputTokens = 0, OutputTokens = 0\<rparr> []] \<and>
   delta_concat 0 (OpenAI_events [0] openai_stream_late_start) =
     ''{'' @ [CHR 0x22] @ ''a'' @ [CHR 0x22] @ '':1}'' \<and>
   \<not> roundtrip (OpenAI_events [0] openai_stream_late_start) \<and>
   map_sum id calls (consume (OpenAI_events [0] openai_stream_late_start) acc_init) =
     Inr [\<lparr>ID = ''call_1'', Name = ''read_file'', Arguments = '':1}''\<rparr>]"
  by code_simp

end
